theory Spec2Isabelle
  imports Complex_Main "HOL-Library.Sublist" "HOL-Library.Multiset" "HOL-Library.Log_Nat"
begin

section \<open>JavaScript values used by the server\<close>

text \<open>
  The server computes with JavaScript numbers, which are binary floating-point numbers
  with 53 significant bits. A finite number is modelled by the rational it denotes, and
  every operation rounds its exact result to 53 significant bits, to the nearest such
  number and to the one with an even last bit when two are equally near. The range of
  the exponent is not modelled (no overflow to \<open>Infinity\<close>, no loss of bits near zero),
  nor is the sign of zero. \<open>Infinity\<close> and \<open>NaN\<close> arise from a division by zero, as in
  the source and unlike the \<open>0\<close> of HOL.
\<close>

text \<open>The exponent \<open>e\<close> of a positive rational: \<open>2^e \<le> x < 2^(e+1)\<close>.\<close>

definition exponent :: "rat \<Rightarrow> int" where
  "exponent x =
     (if 1 \<le> x then int (floorlog 2 (nat \<lfloor>x\<rfloor>)) - 1
      else - int (floorlog 2 (nat (\<lceil>1 / x\<rceil> - 1))))"

definition round_half_even :: "rat \<Rightarrow> int" where
  "round_half_even z =
     (if z - of_int \<lfloor>z\<rfloor> < 1 / 2 then \<lfloor>z\<rfloor>
      else if 1 / 2 < z - of_int \<lfloor>z\<rfloor> then \<lfloor>z\<rfloor> + 1
      else if even \<lfloor>z\<rfloor> then \<lfloor>z\<rfloor> else \<lfloor>z\<rfloor> + 1)"

definition round_pos :: "rat \<Rightarrow> rat" where
  "round_pos x =
     of_int (round_half_even (x * 2 powi (52 - exponent x))) * 2 powi (exponent x - 52)"

text \<open>The rounding of a rational to 53 significant bits.\<close>

definition double :: "rat \<Rightarrow> rat" where
  "double x = (if x = 0 then 0 else if x < 0 then - round_pos (- x) else round_pos x)"

datatype number = NaN | NegInf | Fin rat | PosInf

fun js_sub :: "number \<Rightarrow> number \<Rightarrow> number" where
  "js_sub NaN _ = NaN"
| "js_sub _ NaN = NaN"
| "js_sub (Fin a) (Fin b) = Fin (double (a - b))"
| "js_sub (Fin a) PosInf = NegInf"
| "js_sub (Fin a) NegInf = PosInf"
| "js_sub PosInf PosInf = NaN"
| "js_sub PosInf _ = PosInf"
| "js_sub NegInf NegInf = NaN"
| "js_sub NegInf _ = NegInf"

fun js_div :: "number \<Rightarrow> number \<Rightarrow> number" where
  "js_div NaN _ = NaN"
| "js_div _ NaN = NaN"
| "js_div (Fin a) (Fin b) =
     (if b = 0 then (if a = 0 then NaN else if 0 < a then PosInf else NegInf)
      else Fin (double (a / b)))"
| "js_div (Fin a) _ = Fin 0"
| "js_div PosInf (Fin b) = (if 0 \<le> b then PosInf else NegInf)"
| "js_div NegInf (Fin b) = (if 0 \<le> b then NegInf else PosInf)"
| "js_div _ _ = NaN"

fun js_mul :: "number \<Rightarrow> number \<Rightarrow> number" where
  "js_mul NaN _ = NaN"
| "js_mul _ NaN = NaN"
| "js_mul (Fin a) (Fin b) = Fin (double (a * b))"
| "js_mul (Fin a) PosInf = (if a = 0 then NaN else if 0 < a then PosInf else NegInf)"
| "js_mul (Fin a) NegInf = (if a = 0 then NaN else if 0 < a then NegInf else PosInf)"
| "js_mul PosInf (Fin b) = (if b = 0 then NaN else if 0 < b then PosInf else NegInf)"
| "js_mul NegInf (Fin b) = (if b = 0 then NaN else if 0 < b then NegInf else PosInf)"
| "js_mul PosInf PosInf = PosInf"
| "js_mul PosInf NegInf = NegInf"
| "js_mul NegInf PosInf = NegInf"
| "js_mul NegInf NegInf = PosInf"

text \<open>The relational operator \<open>a > b\<close> on numbers: false as soon as one side is \<open>NaN\<close>.\<close>

fun js_gt :: "number \<Rightarrow> number \<Rightarrow> bool" where
  "js_gt NaN _ = False"
| "js_gt _ NaN = False"
| "js_gt (Fin a) (Fin b) = (b < a)"
| "js_gt PosInf PosInf = False"
| "js_gt PosInf _ = True"
| "js_gt _ PosInf = False"
| "js_gt NegInf _ = False"
| "js_gt (Fin a) NegInf = True"

text \<open>
  \<open>Math.round\<close>: the integral number closest to the argument, the one nearer to
  \<open>+Infinity\<close> when two are equally close; the non-finite values are returned as they are.
\<close>

fun Math_round :: "number \<Rightarrow> number" where
  "Math_round (Fin x) =
     Fin (of_int (if x - of_int \<lfloor>x\<rfloor> < 1 / 2 then \<lfloor>x\<rfloor> else \<lfloor>x\<rfloor> + 1))"
| "Math_round n = n"

text \<open>
  \<open>x.toFixed(2)\<close> returns a decimal string with two fraction digits. The model represents
  that string by the number of hundredths it denotes: the integer \<open>n\<close> for which \<open>n / 100\<close>
  is closest to the magnitude of \<open>x\<close> (the larger one on a tie), with the sign of \<open>x\<close>.
  It is exact on the value of \<open>x\<close>, which is a number that an operation or \<open>JSON.parse\<close>
  has rounded already.
\<close>

type_synonym fixed2 = int

definition toFixed2 :: "rat \<Rightarrow> fixed2" where
  "toFixed2 x = (if x < 0 then - \<lfloor>- x * 100 + 1 / 2\<rfloor> else \<lfloor>x * 100 + 1 / 2\<rfloor>)"

text \<open>
  A number of a JSON text is given by its decimal literal, a rational; \<open>JSON.parse\<close>
  makes of it the nearest number with 53 significant bits. A property that is absent from
  a JSON object reads as \<open>undefined\<close>, which is \<open>NaN\<close> in arithmetic and in
  comparisons.
\<close>

fun to_number :: "rat option \<Rightarrow> number" where
  "to_number None = NaN"
| "to_number (Some x) = Fin (double x)"

datatype js_error = TypeError

section \<open>Product records of the catalog API and deal items\<close>

record raw_price =
  regular :: "rat option"
  promo :: "rat option"

record raw_item =
  i_upc :: "string option"
  i_size :: "string option"
  price :: "raw_price option"

record raw_size =
  s_size :: string
  s_url :: "string option"

record raw_image =
  perspective :: string
  sizes :: "raw_size list option"

record raw_product =
  productId :: string
  description :: string
  p_brand :: "string option"
  items :: "raw_item list option"
  images :: "raw_image list option"

record deal =
  d_id :: string
  d_upc :: string
  d_name :: string
  d_brand :: string
  d_category :: string
  regularPrice :: fixed2
  salePrice :: fixed2
  savings :: fixed2
  pctOff :: number
  d_size :: string
  image :: "string option"

text \<open>\<open>s || ""\<close> on an optional string.\<close>

fun or_empty :: "string option \<Rightarrow> string" where
  "or_empty None = []"
| "or_empty (Some s) = s"

text \<open>\<open>p.items?.[0]?.price?.promo\<close>: \<open>undefined\<close> as soon as one link is missing.\<close>

definition promo_of :: "raw_product \<Rightarrow> rat option" where
  "promo_of p =
     (case items p of
        None \<Rightarrow> None
      | Some [] \<Rightarrow> None
      | Some (item # _) \<Rightarrow> (case price item of None \<Rightarrow> None | Some pr \<Rightarrow> promo pr))"

text \<open>The filter of the deals route: \<open>p.items?.[0]?.price?.promo > 0\<close>.\<close>

definition promo_filter :: "raw_product \<Rightarrow> bool" where
  "promo_filter p = js_gt (to_number (promo_of p)) (Fin 0)"

text \<open>
  \<open>p.images?.find(i => i.perspective === "front")?.sizes?.find(s => s.size === "thumbnail")?.url || null\<close>
\<close>

definition thumbnail :: "raw_product \<Rightarrow> string option" where
  "thumbnail p =
     (case images p of
        None \<Rightarrow> None
      | Some imgs \<Rightarrow>
          (case find (\<lambda>i. perspective i = ''front'') imgs of
             None \<Rightarrow> None
           | Some img \<Rightarrow>
               (case sizes img of
                  None \<Rightarrow> None
                | Some szs \<Rightarrow>
                    (case find (\<lambda>s. s_size s = ''thumbnail'') szs of
                       None \<Rightarrow> None
                     | Some s \<Rightarrow> (case s_url s of None \<Rightarrow> None
                                  | Some u \<Rightarrow> if u = [] then None else Some u)))))"

text \<open>The percentage of the deals route:
  \<open>Math.round(((regular - promo) / regular) * 100)\<close>.\<close>

definition pct :: "number \<Rightarrow> number \<Rightarrow> number" where
  "pct r p = Math_round (js_mul (js_div (js_sub r p) r) (Fin 100))"

text \<open>
  The function mapped over the filtered products. Reading \<open>p.items[0]\<close>, \<open>item.price\<close>
  of a missing value, or calling \<open>toFixed\<close> on a missing price throws a \<open>TypeError\<close>.
\<close>

definition deal_of :: "string \<Rightarrow> raw_product \<Rightarrow> js_error + deal" where
  "deal_of category p =
     (case items p of
        None \<Rightarrow> Inl TypeError
      | Some [] \<Rightarrow> Inl TypeError
      | Some (item # _) \<Rightarrow>
          (case price item of
             None \<Rightarrow> Inl TypeError
           | Some pr \<Rightarrow>
               (let pctOff = pct (to_number (regular pr)) (to_number (promo pr)) in
                case regular pr of
                  None \<Rightarrow> Inl TypeError
                | Some r \<Rightarrow>
                    (case promo pr of
                       None \<Rightarrow> Inl TypeError
                     | Some pm \<Rightarrow>
                         Inr \<lparr>d_id = productId p, d_upc = or_empty (i_upc item),
                              d_name = description p, d_brand = or_empty (p_brand p),
                              d_category = category,
                              regularPrice = toFixed2 (double r),
                              salePrice = toFixed2 (double pm),
                              savings = toFixed2 (double (double r - double pm)),
                              pctOff = pctOff,
                              d_size = or_empty (i_size item), image = thumbnail p\<rparr>))))"

text \<open>\<open>Array.prototype.map\<close> with a callback that may throw: the first exception ends it.\<close>

fun map_throw :: "('a \<Rightarrow> js_error + 'b) \<Rightarrow> 'a list \<Rightarrow> js_error + 'b list" where
  "map_throw f [] = Inr []"
| "map_throw f (x # xs) =
     (case f x of
        Inl e \<Rightarrow> Inl e
      | Inr y \<Rightarrow> (case map_throw f xs of Inl e \<Rightarrow> Inl e | Inr ys \<Rightarrow> Inr (y # ys)))"

text \<open>\<open>const products = (data.data || []).filter(...).map(...)\<close>\<close>

definition products :: "string \<Rightarrow> raw_product list \<Rightarrow> js_error + deal list" where
  "products category ds = map_throw (deal_of category) (filter promo_filter ds)"

section \<open>The deals route: fan-out over the categories\<close>

definition DEAL_CATEGORIES :: "string list" where
  "DEAL_CATEGORIES =
    [''chicken'', ''beef'', ''pork'', ''seafood'', ''turkey'', ''lamb'', ''sausage'', ''bacon'',
     ''vegetables'', ''fruit'', ''salad'', ''herbs'', ''mushrooms'', ''potatoes'',
     ''pasta'', ''rice'', ''bread'', ''tortilla'', ''noodles'', ''grains'',
     ''dairy'', ''cheese'', ''eggs'', ''yogurt'', ''butter'', ''cream'',
     ''frozen meals'', ''frozen vegetables'', ''frozen pizza'', ''frozen seafood'',
     ''snacks'', ''chips'', ''crackers'', ''nuts'', ''popcorn'',
     ''beverages'', ''juice'', ''soda'', ''water'', ''tea'', ''coffee'',
     ''condiments'', ''sauce'', ''oil'', ''dressing'', ''spices'', ''seasoning'',
     ''soup'', ''canned goods'', ''beans'', ''tomatoes'', ''broth'',
     ''breakfast'', ''cereal'', ''oatmeal'', ''pancake'',
     ''bakery'', ''dessert'', ''ice cream'', ''cookies'',
     ''deli'', ''lunch meat'', ''hot dogs'']"

definition batchSize :: nat where
  "batchSize = 8"

text \<open>
  What one product search can come to: \<open>fetch\<close> rejects, the status is not a success,
  \<open>r.json()\<close> rejects, or the body is a JSON object whose \<open>data\<close> is an array of
  products or is absent.
\<close>

datatype upstream = Transport_error | Not_ok | Bad_body | Body "raw_product list option"

text \<open>
  The world outside the process, for one request of the deals route: the answer of the
  token endpoint (the error text or the access token), the answer of the catalog to the
  search for a token, a location and a category, and the time at which the callback of a
  category finishes after its batch was issued.
\<close>

record world =
  token_endpoint :: "string + string"
  catalog :: "string \<Rightarrow> string \<Rightarrow> string \<Rightarrow> upstream"
  latency :: "string \<Rightarrow> nat"

text \<open>\<open>getAppToken\<close>: throws the text of the response when the status is not a success.\<close>

definition getAppToken :: "world \<Rightarrow> string + string" where
  "getAppToken w = token_endpoint w"

text \<open>
  The body of the callback of \<open>batch.map\<close>: everything is inside \<open>try { ... } catch (e) {}\<close>,
  so each way of failing pushes nothing. The result is what the callback pushes on
  \<open>allProducts\<close>.
\<close>

definition category_callback :: "upstream \<Rightarrow> string \<Rightarrow> deal list" where
  "category_callback r category =
     (case r of
        Transport_error \<Rightarrow> []
      | Not_ok \<Rightarrow> []
      | Bad_body \<Rightarrow> []
      | Body d \<Rightarrow>
          (case products category (case d of None \<Rightarrow> [] | Some ds \<Rightarrow> ds) of
             Inl e \<Rightarrow> []
           | Inr ps \<Rightarrow> ps))"

text \<open>
  The state of the loop is \<open>allProducts\<close>. The trace is not a variable of the source: it
  records, in order, when the search of a category is issued and when its callback has
  finished, so that the order of the requests can be stated.
\<close>

datatype event = Issued string | Settled string

record fan_state =
  allProducts :: "deal list"
  trace :: "event list"

text \<open>\<open>xs.slice(s, e)\<close> for indices that are not negative.\<close>

definition slice :: "'a list \<Rightarrow> nat \<Rightarrow> nat \<Rightarrow> 'a list" where
  "slice xs s e = take (e - s) (drop s xs)"

text \<open>
  \<open>await Promise.all(batch.map(async (category) => { ... }))\<close>: \<open>map\<close> calls the callbacks
  in the order of the batch and each one issues its request before it first suspends; the
  callbacks then finish in the order of their latencies and push their products as they
  finish. No callback rejects, so \<open>Promise.all\<close> resumes the loop once all have finished.
\<close>

definition run_batch :: "world \<Rightarrow> string \<Rightarrow> string \<Rightarrow> string list \<Rightarrow> fan_state \<Rightarrow> fan_state" where
  "run_batch w token locationId batch st =
     (let done = sort_key (latency w) batch in
      \<lparr>allProducts = allProducts st
           @ concat (map (\<lambda>category. category_callback (catalog w token locationId category) category) done),
       trace = trace st @ map Issued batch @ map Settled done\<rparr>)"

text \<open>\<open>for (let i = 0; i < categories.length; i += batchSize) { ... }\<close>, from index \<open>i\<close> on.
  With a batch size of zero the loop of the source does not end.\<close>

partial_function (option) fetch_loop ::
  "world \<Rightarrow> string \<Rightarrow> string \<Rightarrow> string list \<Rightarrow> nat \<Rightarrow> nat \<Rightarrow> fan_state \<Rightarrow> fan_state option" where
  "fetch_loop w token locationId categories b i st =
     (if i < length categories
      then fetch_loop w token locationId categories b (i + b)
             (run_batch w token locationId (slice categories i (i + b)) st)
      else Some st)"

section \<open>The deals route: deduplication, ranking and cap\<close>

text \<open>\<open>.filter(p => { if (seen.has(p.id)) return false; seen.add(p.id); return true; })\<close>\<close>

fun filter_seen :: "string set \<Rightarrow> deal list \<Rightarrow> deal list" where
  "filter_seen seen [] = []"
| "filter_seen seen (p # ps) =
     (if d_id p \<in> seen then filter_seen seen ps
      else p # filter_seen (insert (d_id p) seen) ps)"

text \<open>The comparator \<open>(a, b) => b.pctOff - a.pctOff\<close>.\<close>

definition by_pctOff :: "deal \<Rightarrow> deal \<Rightarrow> number" where
  "by_pctOff a b = js_sub (pctOff b) (pctOff a)"

text \<open>
  \<open>Array.prototype.sort\<close> with a comparator is stable: \<open>a\<close> is placed after \<open>b\<close> only
  when the comparator of \<open>a\<close> and \<open>b\<close> is greater than zero (a \<open>NaN\<close> counts as zero).
  For a consistent comparator the result is determined; the model computes it by
  stable insertion.
\<close>

fun insert_cmp :: "('a \<Rightarrow> 'a \<Rightarrow> number) \<Rightarrow> 'a \<Rightarrow> 'a list \<Rightarrow> 'a list" where
  "insert_cmp cmp x [] = [x]"
| "insert_cmp cmp x (y # ys) =
     (if js_gt (cmp x y) (Fin 0) then y # insert_cmp cmp x ys else x # y # ys)"

definition Array_sort :: "('a \<Rightarrow> 'a \<Rightarrow> number) \<Rightarrow> 'a list \<Rightarrow> 'a list" where
  "Array_sort cmp xs = foldr (insert_cmp cmp) xs []"

text \<open>\<open>const unique = allProducts.filter(...).sort(...).slice(0, 200)\<close>\<close>

definition unique :: "deal list \<Rightarrow> deal list" where
  "unique ps = slice (Array_sort by_pctOff (filter_seen {} ps)) 0 200"

datatype 'a response = Json 'a | Error nat string

text \<open>
  The handler of \<open>GET /api/deals\<close>. \<open>None\<close> is a handler that never answers; the
  query parameter is absent (\<open>None\<close>) or a string.
\<close>

definition api_deals :: "world \<Rightarrow> string option \<Rightarrow> deal list response option" where
  "api_deals w locationId =
     (case locationId of
        None \<Rightarrow> Some (Error 400 ''locationId is required'')
      | Some loc \<Rightarrow>
          if loc = [] then Some (Error 400 ''locationId is required'')
          else
            (case getAppToken w of
               Inl message \<Rightarrow> Some (Error 500 message)
             | Inr token \<Rightarrow>
                 (case fetch_loop w token loc DEAL_CATEGORIES batchSize 0
                         \<lparr>allProducts = [], trace = []\<rparr> of
                    None \<Rightarrow> None
                  | Some st \<Rightarrow> Some (Json (unique (allProducts st))))))"

section \<open>Closed forms used in the statements\<close>

text \<open>The consecutive slices that the loop takes from a list, for a batch size \<open>b\<close>.\<close>

definition batches :: "nat \<Rightarrow> 'a list \<Rightarrow> 'a list list" where
  "batches b xs = map (\<lambda>k. slice xs (k * b) (k * b + b)) [0..<(length xs + b - 1) div b]"

text \<open>The order in which the callbacks of all batches finish.\<close>

definition finish_order :: "world \<Rightarrow> nat \<Rightarrow> string list \<Rightarrow> string list" where
  "finish_order w b categories = concat (map (sort_key (latency w)) (batches b categories))"

text \<open>What the callbacks push when they finish in a given order.\<close>

definition pushed :: "world \<Rightarrow> string \<Rightarrow> string \<Rightarrow> string list \<Rightarrow> deal list" where
  "pushed w token locationId order =
     concat (map (\<lambda>category. category_callback (catalog w token locationId category) category) order)"

text \<open>\<open>a >= b\<close> on numbers.\<close>

fun js_ge :: "number \<Rightarrow> number \<Rightarrow> bool" where
  "js_ge NaN _ = False"
| "js_ge _ NaN = False"
| "js_ge (Fin a) (Fin b) = (b \<le> a)"
| "js_ge PosInf _ = True"
| "js_ge _ NegInf = True"
| "js_ge _ _ = False"

text \<open>A positive rational that has no bits below the 53 that its exponent allows.\<close>

definition on_grid :: "rat \<Rightarrow> bool" where
  "on_grid c = (c * 2 powi (52 - exponent c) \<in> \<int>)"

section \<open>The recipe search: sale items and coupons of a recipe\<close>

text \<open>
  A string is the list of its characters; a string with characters beyond the 256 of
  the type is the list of the bytes of its UTF-8 form, on which \<open>split(" ")[0]\<close> and
  \<open>includes\<close> give the same results. \<open>String.prototype.toLowerCase\<close> follows the case
  tables of Unicode; it is a parameter of every definition that uses it (the function
  called \<open>toLowerCase\<close> below), and the theorems hold for every such function.
\<close>

text \<open>\<open>s.split(" ")[0]\<close>: the part of the string before the first space.\<close>

definition first_token :: "string \<Rightarrow> string" where
  "first_token s = takeWhile (\<lambda>c. c \<noteq> CHR '' '') s"

text \<open>\<open>haystack.includes(needle)\<close>\<close>

definition js_includes :: "string \<Rightarrow> string \<Rightarrow> bool" where
  "js_includes haystack needle = sublist needle haystack"

text \<open>
  An element of \<open>ingredients\<close> in the request body: a deal as the deals route returned
  it, with the fields that the route reads. The price strings are represented by their
  hundredths, as for a deal; \<open>None\<close> is a field that is absent.
\<close>

record ingredient =
  g_name :: string
  g_salePrice :: "fixed2 option"
  g_regularPrice :: "fixed2 option"
  g_savings :: "fixed2 option"
  g_upc :: "string option"

text \<open>A coupon as the coupons route returns it.\<close>

record coupon =
  c_id :: string
  c_description :: string
  c_brand :: string
  c_savings :: rat
  c_expiryDate :: string
  c_clipped :: bool
  c_category :: string
  c_type :: string

text \<open>The fields of a coupon that \<open>couponsToClip\<close> keeps.\<close>

record clip =
  k_description :: string
  k_savings :: rat
  k_clipped :: bool
  k_type :: string

text \<open>
  A result of the recipe search, with the fields that the savings and the coupons are
  computed from. The other fields (image, minutes, servings, summary, diets, cuisines,
  instructions) are copied to the answer and are left out here.
\<close>

record recipe =
  r_id :: nat
  r_title :: string
  usedIngredients :: "string list option"
  missedIngredientCount :: "nat option"

text \<open>
  The object \<open>{ name: deal.name, salePrice: deal.salePrice, regularPrice: deal.regularPrice,
  savings: deal.savings, upc: deal.upc }\<close> that is pushed on \<open>usedSaleItems\<close>; \<open>None\<close> is
  \<open>undefined\<close>.
\<close>

record used_item =
  u_name :: "string option"
  u_salePrice :: "fixed2 option"
  u_regularPrice :: "fixed2 option"
  u_savings :: "fixed2 option"
  u_upc :: "string option"

record enriched =
  e_id :: nat
  e_title :: string
  usedSaleItems :: "used_item list"
  totalSavings :: rat
  estimatedCost :: rat
  couponsToClip :: "clip list"

text \<open>\<open>parseFloat(x) || 0\<close> on a price string or on \<open>undefined\<close>.\<close>

fun parseFloat_or_0 :: "fixed2 option \<Rightarrow> rat" where
  "parseFloat_or_0 None = 0"
| "parseFloat_or_0 (Some n) = double (of_int n / 100)"

text \<open>\<open>parseFloat(x.toFixed(2))\<close>\<close>

definition round2 :: "rat \<Rightarrow> rat" where
  "round2 x = double (of_int (toFixed2 x) / 100)"

text \<open>
  \<open>ingredientLookup\<close> is a plain object. It has the properties that the loop gives it,
  and a prototype from which it inherits: \<open>Object.prototype\<close> at first (\<open>None\<close> below),
  or an ingredient, once the loop has assigned one to the key \<open>__proto__\<close>.
\<close>

record plain_object =
  own :: "string \<rightharpoonup> ingredient"
  proto :: "ingredient option"

text \<open>
  What reading a property of \<open>ingredientLookup\<close> can give: an ingredient, a string or a
  price string that is a field of the ingredient that became the prototype, a function
  of \<open>Object.prototype\<close> (with the \<open>name\<close> of the function), or \<open>Object.prototype\<close>
  itself.
\<close>

datatype deal_value = Item ingredient | Text string | Price fixed2 | Builtin string
  | Object_prototype

text \<open>The data properties of \<open>Object.prototype\<close>, all of them functions.\<close>

definition Object_prototype_functions :: "string list" where
  "Object_prototype_functions =
    [''constructor'', ''__defineGetter__'', ''__defineSetter__'', ''hasOwnProperty'',
     ''__lookupGetter__'', ''__lookupSetter__'', ''isPrototypeOf'', ''propertyIsEnumerable'',
     ''toString'', ''valueOf'', ''toLocaleString'']"

text \<open>\<open>obj[key] = ing\<close>: the key \<open>__proto__\<close> sets the prototype and makes no property.\<close>

definition set_property :: "plain_object \<Rightarrow> string \<Rightarrow> ingredient \<Rightarrow> plain_object" where
  "set_property obj key ing =
     (if key = ''__proto__'' then obj\<lparr>proto := Some ing\<rparr>
      else obj\<lparr>own := (own obj)(key \<mapsto> ing)\<rparr>)"

text \<open>A property of an ingredient object itself.\<close>

definition ingredient_property :: "ingredient \<Rightarrow> string \<Rightarrow> deal_value option" where
  "ingredient_property ing key =
     (if key = ''name'' then Some (Text (g_name ing))
      else if key = ''salePrice'' then map_option Price (g_salePrice ing)
      else if key = ''regularPrice'' then map_option Price (g_regularPrice ing)
      else if key = ''savings'' then map_option Price (g_savings ing)
      else if key = ''upc'' then map_option Text (g_upc ing)
      else None)"

text \<open>
  \<open>obj[key]\<close>: an own property, or else what the prototype chain gives: the prototype
  for \<open>__proto__\<close>, a property of the ingredient that is the prototype, a function of
  \<open>Object.prototype\<close> (\<open>constructor\<close> is the function named \<open>Object\<close>); \<open>None\<close> is
  \<open>undefined\<close>.
\<close>

definition get_property :: "plain_object \<Rightarrow> string \<Rightarrow> deal_value option" where
  "get_property obj key =
     (case own obj key of
        Some ing \<Rightarrow> Some (Item ing)
      | None \<Rightarrow>
          if key = ''__proto__''
          then Some (case proto obj of None \<Rightarrow> Object_prototype | Some ing \<Rightarrow> Item ing)
          else
            (case (case proto obj of None \<Rightarrow> None | Some ing \<Rightarrow> ingredient_property ing key) of
               Some v \<Rightarrow> Some v
             | None \<Rightarrow>
                 if key \<in> set Object_prototype_functions
                 then Some (Builtin (if key = ''constructor'' then ''Object'' else key))
                 else None))"

text \<open>Whether a value counts as true: of these values only the empty string does not.\<close>

fun truthy :: "deal_value \<Rightarrow> bool" where
  "truthy (Text s) = (s \<noteq> [])"
| "truthy _ = True"

text \<open>
  \<open>const ingredientLookup = {}; for (const ing of ingredients) { ingredientLookup[key] = ing; }\<close>
  with \<open>key = ing.name.toLowerCase().split(" ")[0]\<close>.
\<close>

definition ingredientLookup :: "(string \<Rightarrow> string) \<Rightarrow> ingredient list \<Rightarrow> plain_object" where
  "ingredientLookup toLowerCase ingredients =
     foldl (\<lambda>obj ing. set_property obj (first_token (toLowerCase (g_name ing))) ing)
       \<lparr>own = Map.empty, proto = None\<rparr> ingredients"

text \<open>
  \<open>ingredientLookup[key] || ingredients.find(i => i.name.toLowerCase().includes(key))\<close>
  for the name of an ingredient of the recipe.
\<close>

definition find_deal :: "(string \<Rightarrow> string) \<Rightarrow> ingredient list \<Rightarrow> string \<Rightarrow> deal_value option" where
  "find_deal toLowerCase ingredients name =
     (let key = first_token (toLowerCase name);
          found = map_option Item
            (find (\<lambda>i. js_includes (toLowerCase (g_name i)) key) ingredients)
      in case get_property (ingredientLookup toLowerCase ingredients) key of
           Some deal \<Rightarrow> if truthy deal then Some deal else found
         | None \<Rightarrow> found)"

text \<open>The object pushed for a value of \<open>deal\<close>: its properties of the five names.\<close>

fun item_of :: "deal_value \<Rightarrow> used_item" where
  "item_of (Item ing) =
     \<lparr>u_name = Some (g_name ing), u_salePrice = g_salePrice ing,
      u_regularPrice = g_regularPrice ing, u_savings = g_savings ing, u_upc = g_upc ing\<rparr>"
| "item_of (Builtin name) =
     \<lparr>u_name = Some name, u_salePrice = None, u_regularPrice = None, u_savings = None,
      u_upc = None\<rparr>"
| "item_of _ =
     \<lparr>u_name = None, u_salePrice = None, u_regularPrice = None, u_savings = None,
      u_upc = None\<rparr>"

text \<open>The three variables that the loop over \<open>recipe.usedIngredients\<close> updates.\<close>

record tally =
  t_usedSaleItems :: "used_item list"
  t_totalSavings :: rat
  t_estimatedCost :: rat

definition tally_step ::
  "(string \<Rightarrow> string) \<Rightarrow> ingredient list \<Rightarrow> tally \<Rightarrow> string \<Rightarrow> tally" where
  "tally_step toLowerCase ingredients t name =
     (case find_deal toLowerCase ingredients name of
        None \<Rightarrow> t
      | Some deal \<Rightarrow>
          \<lparr>t_usedSaleItems = t_usedSaleItems t @ [item_of deal],
           t_totalSavings =
             double (t_totalSavings t + parseFloat_or_0 (u_savings (item_of deal))),
           t_estimatedCost =
             double (t_estimatedCost t + parseFloat_or_0 (u_salePrice (item_of deal)))\<rparr>)"

text \<open>\<open>xs || []\<close> on an optional array, \<open>n || 0\<close> on an optional count.\<close>

fun or_nil :: "'a list option \<Rightarrow> 'a list" where
  "or_nil None = []"
| "or_nil (Some xs) = xs"

fun or_zero :: "nat option \<Rightarrow> nat" where
  "or_zero None = 0"
| "or_zero (Some n) = n"

text \<open>The filter of \<open>couponsToClip\<close>.\<close>

definition coupon_matches :: "(string \<Rightarrow> string) \<Rightarrow> string list \<Rightarrow> coupon \<Rightarrow> bool" where
  "coupon_matches toLowerCase used c =
     (let desc = toLowerCase (c_description c @ '' '' @ c_brand c) in
      list_ex (\<lambda>name. js_includes desc (first_token (toLowerCase name))) used)"

definition clip_of :: "coupon \<Rightarrow> clip" where
  "clip_of c = \<lparr>k_description = c_description c, k_savings = c_savings c,
                k_clipped = c_clipped c, k_type = c_type c\<rparr>"

text \<open>The callback of \<open>recipes.map\<close>.\<close>

definition enrich ::
  "(string \<Rightarrow> string) \<Rightarrow> ingredient list \<Rightarrow> coupon list option \<Rightarrow> coupon list option
     \<Rightarrow> recipe \<Rightarrow> enriched" where
  "enrich toLowerCase ingredients coupons boostDeals recipe =
     (let t = foldl (tally_step toLowerCase ingredients)
                \<lparr>t_usedSaleItems = [], t_totalSavings = 0, t_estimatedCost = 0\<rparr>
                (or_nil (usedIngredients recipe));
          estimatedCost =
            double (t_estimatedCost t
              + double (double (of_nat (or_zero (missedIngredientCount recipe))) * (1 / 2)));
          allCoupons = or_nil coupons @ or_nil boostDeals
      in \<lparr>e_id = r_id recipe, e_title = r_title recipe,
          usedSaleItems = t_usedSaleItems t,
          totalSavings = round2 (t_totalSavings t),
          estimatedCost = round2 estimatedCost,
          couponsToClip =
            map clip_of
              (filter (coupon_matches toLowerCase (or_nil (usedIngredients recipe))) allCoupons)\<rparr>)"

text \<open>
  The handler of \<open>POST /api/recipes/search\<close>, given the answer of the recipe search
  (the error text, or the array \<open>results\<close> if present): the recipes are enriched and
  sorted by \<open>b.totalSavings - a.totalSavings\<close>.
\<close>

definition by_totalSavings :: "enriched \<Rightarrow> enriched \<Rightarrow> number" where
  "by_totalSavings a b = js_sub (Fin (totalSavings b)) (Fin (totalSavings a))"

definition api_recipes_search ::
  "(string \<Rightarrow> string) \<Rightarrow> (string + recipe list option) \<Rightarrow> ingredient list option
     \<Rightarrow> coupon list option \<Rightarrow> coupon list option \<Rightarrow> enriched list response" where
  "api_recipes_search toLowerCase searchRes ingredients coupons boostDeals =
     (case ingredients of
        None \<Rightarrow> Error 400 ''ingredients required''
      | Some ings \<Rightarrow>
          if ings = [] then Error 400 ''ingredients required''
          else
            (case searchRes of
               Inl message \<Rightarrow> Error 500 message
             | Inr results \<Rightarrow>
                 Json (Array_sort by_totalSavings
                         (map (enrich toLowerCase ings coupons boostDeals) (or_nil results)))))"

text \<open>The sum that \<open>+=\<close> makes of numbers, from zero and from left to right.\<close>

definition js_sum :: "rat list \<Rightarrow> rat" where
  "js_sum xs = foldl (\<lambda>a b. double (a + b)) 0 xs"

text \<open>
  Lower case for strings of ASCII characters: the letters A to Z (codes 65 to 90) get
  the bit of weight 32. On such strings \<open>toLowerCase\<close> is this function; it stands for
  \<open>toLowerCase\<close> in the examples, which are in ASCII.
\<close>

definition lower_char :: "char \<Rightarrow> char" where
  "lower_char c =
     (if (65::nat) \<le> of_char c \<and> of_char c \<le> (90::nat)
      then Char (digit0 c) (digit1 c) (digit2 c) (digit3 c) (digit4 c) True (digit6 c) (digit7 c)
      else c)"

definition ascii_lower :: "string \<Rightarrow> string" where
  "ascii_lower s = map lower_char s"

section \<open>The coupons route: refreshing the user's token\<close>

text \<open>A value of the map \<open>krogerTokens\<close>; \<open>expiresAt\<close> is in milliseconds.\<close>

record credential =
  accessToken :: string
  refreshToken :: string
  expiresAt :: int
  profile :: string

text \<open>The fields that are read from the answer of the token endpoint.\<close>

record token_response =
  access_token :: string
  expires_in :: int

text \<open>An offer of the loyalty API.\<close>

record raw_offer =
  offerId :: string
  o_description :: string
  brandName :: "string option"
  customerSavings :: "rat option"
  expirationDate :: "string option"
  offerState :: string
  categories :: "string list option"

text \<open>
  What a request of the loyalty API can come to: \<open>fetch\<close> rejects, the status is not a
  success (with the text of the response), the body cannot be read, or the body is a
  JSON object whose \<open>data\<close> is an array of offers or is absent.
\<close>

datatype loyalty = Rejected string | Refused string | Unreadable string
  | Offers "raw_offer list option"

text \<open>
  The world outside the process, for one request of the coupons route: who the
  identity provider says the bearer is, the two readings of the clock (at the comparison
  and after the refresh), the answer of the token endpoint to a refresh token (the text
  of a response that is not a success, or the tokens), and the answers of the loyalty
  API to an access token.
\<close>

record loyalty_world =
  getUser :: "string option"
  now_checked :: int
  now_refreshed :: int
  token_refresh :: "string \<Rightarrow> string + token_response"
  coupons_endpoint :: "string \<Rightarrow> loyalty"
  boost_endpoint :: "string \<Rightarrow> loyalty"

text \<open>The requests that the route sends, in order; not a variable of the source.\<close>

datatype call = Refresh string | Get_coupons string | Get_boost string

fun is_refresh :: "call \<Rightarrow> bool" where
  "is_refresh (Refresh _) = True"
| "is_refresh _ = False"

text \<open>\<open>refreshKrogerToken\<close>: throws the text of the response when the status is not a
  success.\<close>

definition refreshKrogerToken :: "loyalty_world \<Rightarrow> string \<Rightarrow> string + token_response" where
  "refreshKrogerToken w rt = token_refresh w rt"

text \<open>The object that the route makes of an offer.\<close>

definition coupon_of :: "string \<Rightarrow> raw_offer \<Rightarrow> coupon" where
  "coupon_of type c =
     \<lparr>c_id = offerId c, c_description = o_description c, c_brand = or_empty (brandName c),
      c_savings = (case customerSavings c of None \<Rightarrow> 0 | Some s \<Rightarrow> s),
      c_expiryDate = or_empty (expirationDate c),
      c_clipped = (offerState c = ''Clipped''),
      c_category = (case categories c of None \<Rightarrow> [] | Some [] \<Rightarrow> [] | Some (x # _) \<Rightarrow> x),
      c_type = type\<rparr>"

text \<open>
  The route after the token was checked: both requests are sent with the access token of
  \<open>krogerData\<close>; a rejected boost request counts as no boost deals.
\<close>

definition fetch_coupons ::
  "loyalty_world \<Rightarrow> credential \<Rightarrow> (coupon list \<times> coupon list) response" where
  "fetch_coupons w krogerData =
     (case coupons_endpoint w (accessToken krogerData) of
        Rejected message \<Rightarrow> Error 500 message
      | Refused message \<Rightarrow> Error 500 message
      | Unreadable message \<Rightarrow> Error 500 message
      | Offers couponData \<Rightarrow>
          (case boost_endpoint w (accessToken krogerData) of
             Rejected message \<Rightarrow> Json (map (coupon_of ''digital_coupon'') (or_nil couponData), [])
           | Refused message \<Rightarrow> Json (map (coupon_of ''digital_coupon'') (or_nil couponData), [])
           | Unreadable message \<Rightarrow> Error 500 message
           | Offers boostData \<Rightarrow>
               Json (map (coupon_of ''digital_coupon'') (or_nil couponData),
                     map (coupon_of ''boost_deal'') (or_nil boostData))))"

text \<open>
  The handler of \<open>GET /api/coupons\<close>: the answer, the map \<open>krogerTokens\<close> afterwards
  and the requests that were sent.
\<close>

definition api_coupons ::
  "loyalty_world \<Rightarrow> (string \<rightharpoonup> credential)
     \<Rightarrow> (coupon list \<times> coupon list) response \<times> (string \<rightharpoonup> credential) \<times> call list" where
  "api_coupons w krogerTokens =
     (case getUser w of
        None \<Rightarrow> (Error 401 ''Not authenticated'', krogerTokens, [])
      | Some user \<Rightarrow>
          (case krogerTokens user of
             None \<Rightarrow> (Error 401 ''Kroger not connected'', krogerTokens, [])
           | Some krogerData \<Rightarrow>
               if expiresAt krogerData \<le> now_checked w then
                 (case refreshKrogerToken w (refreshToken krogerData) of
                    Inl message \<Rightarrow>
                      (Error 500 message, krogerTokens, [Refresh (refreshToken krogerData)])
                  | Inr refreshed \<Rightarrow>
                      (let krogerData' = krogerData
                             \<lparr>accessToken := access_token refreshed,
                              expiresAt := now_refreshed w + expires_in refreshed * 1000\<rparr>
                       in (fetch_coupons w krogerData', krogerTokens(user \<mapsto> krogerData'),
                           [Refresh (refreshToken krogerData),
                            Get_coupons (accessToken krogerData'),
                            Get_boost (accessToken krogerData')])))
               else
                 (fetch_coupons w krogerData, krogerTokens,
                  [Get_coupons (accessToken krogerData), Get_boost (accessToken krogerData)])))"

section \<open>The profile route\<close>

definition allowed :: "string list" where
  "allowed = [''full_name'', ''household_size'', ''dietary_preferences'',
              ''favorite_recipe_types'', ''preferred_store'']"

text \<open>
  \<open>for (const key of allowed) { if (req.body[key] !== undefined) updates[key] = req.body[key]; }\<close>
  and then \<open>updates.updated_at = new Date().toISOString()\<close>. The body and \<open>updates\<close>
  are JSON objects: maps from the names of their fields to values of any type.
\<close>

definition updates_of :: "(string \<rightharpoonup> 'v) \<Rightarrow> 'v \<Rightarrow> (string \<rightharpoonup> 'v)" where
  "updates_of body now =
     (foldl (\<lambda>updates key. case body key of None \<Rightarrow> updates | Some v \<Rightarrow> updates(key \<mapsto> v))
        Map.empty allowed)
     (''updated_at'' \<mapsto> now)"

text \<open>
  The table \<open>profiles\<close> is a map from the identifier of a user to the row of the user.
  \<open>update(updates).eq("id", user.id).select().single()\<close> on it is part of the world:
  the store may refuse the update (with a message), there may be no row for the user, or
  the columns of \<open>updates\<close> are written to the row, which is returned.
\<close>

definition profiles_update ::
  "((string \<rightharpoonup> 'v) \<Rightarrow> string option) \<Rightarrow> (string \<rightharpoonup> (string \<rightharpoonup> 'v)) \<Rightarrow> string
     \<Rightarrow> (string \<rightharpoonup> 'v) \<Rightarrow> (string + (string \<rightharpoonup> 'v)) \<times> (string \<rightharpoonup> (string \<rightharpoonup> 'v))" where
  "profiles_update refuses profiles user updates =
     (case refuses updates of
        Some message \<Rightarrow> (Inl message, profiles)
      | None \<Rightarrow>
          (case profiles user of
             None \<Rightarrow> (Inl ''no rows returned'', profiles)
           | Some row \<Rightarrow> (Inr (row ++ updates), profiles(user \<mapsto> row ++ updates))))"

text \<open>
  The handler of \<open>PATCH /api/profile\<close>, for the user that the bearer token belongs to
  (if any), the body and the time of the request: the answer and the table afterwards.
\<close>

definition api_profile_patch ::
  "((string \<rightharpoonup> 'v) \<Rightarrow> string option) \<Rightarrow> string option \<Rightarrow> 'v \<Rightarrow> (string \<rightharpoonup> (string \<rightharpoonup> 'v))
     \<Rightarrow> (string \<rightharpoonup> 'v) \<Rightarrow> (string \<rightharpoonup> 'v) response \<times> (string \<rightharpoonup> (string \<rightharpoonup> 'v))" where
  "api_profile_patch refuses user now profiles body =
     (case user of
        None \<Rightarrow> (Error 401 ''Not authenticated'', profiles)
      | Some uid \<Rightarrow>
          (case profiles_update refuses profiles uid (updates_of body now) of
             (Inl message, profiles') \<Rightarrow> (Error 500 message, profiles')
           | (Inr data, profiles') \<Rightarrow> (Json data, profiles')))"

section \<open>Example inputs\<close>

definition milk :: raw_product where
  "milk = \<lparr>productId = ''0001111041700'', description = ''Kroger 2% Milk'',
            p_brand = Some ''Kroger'',
            items = Some [\<lparr>i_upc = Some ''0001111041700'', i_size = Some ''1 gal'',
                           price = Some \<lparr>regular = Some 4, promo = Some 3\<rparr>\<rparr>],
            images = None\<rparr>"

definition milk_deal :: deal where
  "milk_deal = \<lparr>d_id = ''0001111041700'', d_upc = ''0001111041700'',
                 d_name = ''Kroger 2% Milk'', d_brand = ''Kroger'', d_category = ''dairy'',
                 regularPrice = 400, salePrice = 300, savings = 100, pctOff = Fin 25,
                 d_size = ''1 gal'', image = None\<rparr>"

definition bananas :: raw_product where
  "bananas = \<lparr>productId = ''0000000004011'', description = ''Bananas'',
            p_brand = None,
            items = Some [\<lparr>i_upc = None, i_size = None,
                           price = Some \<lparr>regular = Some (59 / 100), promo = Some 0\<rparr>\<rparr>],
            images = None\<rparr>"



text \<open>
  A product at 1.245 instead of 1.255: the two prices are different numbers, and both
  are written as 1.25.
\<close>

definition yogurt :: raw_product where
  "yogurt = \<lparr>productId = ''0001111045618'', description = ''Kroger Vanilla Yogurt'',
            p_brand = Some ''Kroger'',
            items = Some [\<lparr>i_upc = Some ''0001111045618'', i_size = Some ''6 oz'',
                           price = Some \<lparr>regular = Some (251 / 200), promo = Some (249 / 200)\<rparr>\<rparr>],
            images = None\<rparr>"

definition yogurt_deal :: deal where
  "yogurt_deal = \<lparr>d_id = ''0001111045618'', d_upc = ''0001111045618'',
                 d_name = ''Kroger Vanilla Yogurt'', d_brand = ''Kroger'', d_category = ''yogurt'',
                 regularPrice = 125, salePrice = 125, savings = 1, pctOff = Fin 1,
                 d_size = ''6 oz'', image = None\<rparr>"

text \<open>A product with a promotional price and no regular price.\<close>

definition cream :: raw_product where
  "cream = \<lparr>productId = ''0001111050158'', description = ''Kroger Heavy Cream'',
            p_brand = Some ''Kroger'',
            items = Some [\<lparr>i_upc = Some ''0001111050158'', i_size = Some ''1 pt'',
                           price = Some \<lparr>regular = None, promo = Some 3\<rparr>\<rparr>],
            images = None\<rparr>"

text \<open>A world in which the token is granted, all searches fail and finish at once.\<close>

definition silent :: world where
  "silent = \<lparr>token_endpoint = Inr ''token'', catalog = (\<lambda>token loc category. Not_ok),
             latency = (\<lambda>category. 0)\<rparr>"

text \<open>A product whose promotional price is above its regular price, and its deal item.\<close>

definition marked_up :: raw_product where
  "marked_up = \<lparr>productId = ''0001111060903'', description = ''Chicken Thighs'',
            p_brand = Some ''Kroger'',
            items = Some [\<lparr>i_upc = Some ''0001111060903'', i_size = Some ''1 lb'',
                           price = Some \<lparr>regular = Some 4, promo = Some 5\<rparr>\<rparr>],
            images = None\<rparr>"

definition marked_up_deal :: deal where
  "marked_up_deal = \<lparr>d_id = ''0001111060903'', d_upc = ''0001111060903'',
                 d_name = ''Chicken Thighs'', d_brand = ''Kroger'', d_category = ''chicken'',
                 regularPrice = 400, salePrice = 500, savings = - 100, pctOff = Fin (- 25),
                 d_size = ''1 lb'', image = None\<rparr>"

text \<open>A world in which only the search for one category succeeds.\<close>

definition single_result :: "string \<Rightarrow> raw_product list \<Rightarrow> world" where
  "single_result c ps =
     \<lparr>token_endpoint = Inr ''token'',
      catalog = (\<lambda>token loc category. if category = c then Body (Some ps) else Not_ok),
      latency = (\<lambda>category. 0)\<rparr>"

definition eggs :: raw_product where
  "eggs = \<lparr>productId = ''0001111060933'', description = ''Kroger Grade A Large Eggs'',
            p_brand = Some ''Kroger'',
            items = Some [\<lparr>i_upc = Some ''0001111060933'', i_size = Some ''12 ct'',
                           price = Some \<lparr>regular = Some 5, promo = Some (9 / 2)\<rparr>\<rparr>],
            images = None\<rparr>"

definition eggs_deal :: deal where
  "eggs_deal = \<lparr>d_id = ''0001111060933'', d_upc = ''0001111060933'',
                 d_name = ''Kroger Grade A Large Eggs'', d_brand = ''Kroger'',
                 d_category = ''dairy'',
                 regularPrice = 500, salePrice = 450, savings = 50, pctOff = Fin 10,
                 d_size = ''12 ct'', image = None\<rparr>"

text \<open>
  Two hundred deals with different identifiers and 50 percent off, followed by two
  records for one more product with 10 percent off.
\<close>

definition numbered :: "nat \<Rightarrow> deal" where
  "numbered n = \<lparr>d_id = [char_of (48 + n div 100), char_of (48 + n div 10 mod 10),
                         char_of (48 + n mod 10)],
                 d_upc = [], d_name = ''Item'', d_brand = [], d_category = ''snacks'',
                 regularPrice = 200, salePrice = 100, savings = 100, pctOff = Fin 50,
                 d_size = [], image = None\<rparr>"

definition straggler :: deal where
  "straggler = \<lparr>d_id = ''late'', d_upc = [], d_name = ''Item'', d_brand = [],
                 d_category = ''cookies'',
                 regularPrice = 200, salePrice = 180, savings = 20, pctOff = Fin 10,
                 d_size = [], image = None\<rparr>"

definition crowd :: "deal list" where
  "crowd = map numbered [0..<200] @ [straggler, straggler]"

text \<open>A sale item and a recipe that uses it for two of its ingredients.\<close>

definition chicken_breast :: ingredient where
  "chicken_breast = \<lparr>g_name = ''Chicken Breast'', g_salePrice = Some 399,
      g_regularPrice = Some 599, g_savings = Some 200, g_upc = Some ''0001111097975''\<rparr>"

definition chicken_dinner :: recipe where
  "chicken_dinner = \<lparr>r_id = 716429, r_title = ''Chicken Dinner'',
      usedIngredients = Some [''chicken breast'', ''chicken thighs''],
      missedIngredientCount = Some 2\<rparr>"

definition chicken_coupon :: coupon where
  "chicken_coupon = \<lparr>c_id = ''800000012345'', c_description = ''Save $1.00 on Fresh Chicken'',
      c_brand = ''Kroger'', c_savings = 1, c_expiryDate = ''2026-12-31'', c_clipped = False,
      c_category = ''Meat'', c_type = ''digital_coupon''\<rparr>"

text \<open>
  A recipe with an ingredient called \<open>constructor\<close>, and a sale item whose name begins
  with \<open>__proto__\<close> together with a recipe with an ingredient called \<open>name\<close>.
\<close>

definition odd_dinner :: recipe where
  "odd_dinner = \<lparr>r_id = 716430, r_title = ''Odd Dinner'',
      usedIngredients = Some [''constructor''], missedIngredientCount = None\<rparr>"

definition odd_snack :: ingredient where
  "odd_snack = \<lparr>g_name = ''__proto__ snack'', g_salePrice = Some 100,
      g_regularPrice = Some 150, g_savings = Some 50, g_upc = None\<rparr>"

definition name_dinner :: recipe where
  "name_dinner = \<lparr>r_id = 716431, r_title = ''Name Dinner'',
      usedIngredients = Some [''name''], missedIngredientCount = None\<rparr>"

text \<open>
  A user whose token expired a minute ago, and one whose token is good for another
  minute; the token endpoint grants a new token for half an hour.
\<close>

definition stale :: credential where
  "stale = \<lparr>accessToken = ''old-access'', refreshToken = ''refresh-1'',
             expiresAt = 1700000000000, profile = ''{}''\<rparr>"

definition coupon_world :: loyalty_world where
  "coupon_world = \<lparr>getUser = Some ''user-1'', now_checked = 1700000060000,
      now_refreshed = 1700000060250,
      token_refresh = (\<lambda>rt. if rt = ''refresh-1''
         then Inr \<lparr>access_token = ''new-access'', expires_in = 1800\<rparr>
         else Inl ''invalid_grant''),
      coupons_endpoint = (\<lambda>token. if token = ''new-access'' then Offers (Some [])
         else Refused ''unauthorized''),
      boost_endpoint = (\<lambda>token. Rejected ''timeout'')\<rparr>"

definition early_world :: loyalty_world where
  "early_world = coupon_world\<lparr>now_checked := 1699999940000\<rparr>"

text \<open>A profile row, and a body that names a field outside the list as well.\<close>

definition row_1 :: "string \<rightharpoonup> string" where
  "row_1 = [''id'' \<mapsto> ''user-1'', ''full_name'' \<mapsto> ''Ann'', ''kroger_connected'' \<mapsto> ''false'']"

definition body_1 :: "string \<rightharpoonup> string" where
  "body_1 = [''full_name'' \<mapsto> ''Ann B'', ''kroger_connected'' \<mapsto> ''true'', ''id'' \<mapsto> ''user-2'']"

section \<open>Rounding to 53 significant bits\<close>

lemma two_powi_pos: "0 < (2::rat) powi k"
  by (simp add: zero_less_power_int)

lemma two_powi_add: "(2::rat) powi a * 2 powi b = 2 powi (a + b)"
  by (simp add: power_int_add)

lemma exponent_bounds:
  assumes "0 < x"
  shows "2 powi exponent x \<le> x \<and> x < 2 powi (exponent x + 1)"
proof (cases "1 \<le> x")
  case True
  define n where "n = nat \<lfloor>x\<rfloor>"
  from True have "1 \<le> \<lfloor>x\<rfloor>" by simp
  then have n: "0 < n" and nx: "of_nat n = (of_int \<lfloor>x\<rfloor> :: rat)"
    by (simp_all add: n_def)
  have lo: "(of_nat n :: rat) \<le> x" and hi: "x < of_nat n + 1"
    unfolding nx by linarith+
  define k where "k = floorlog 2 n"
  from floorlog_bounds [of n 2] n have b: "2 ^ (k - 1) \<le> n" "n < 2 ^ k"
    by (simp_all add: k_def)
  from n have k: "0 < k"
    by (simp add: k_def floorlog_eq_zero_iff Suc_le_eq flip: neq0_conv)
  have e: "exponent x = int (k - 1)" "exponent x + 1 = int k"
    using True k by (simp_all add: exponent_def k_def n_def)
  from b(1) have "(of_nat (2 ^ (k - 1)) :: rat) \<le> of_nat n"
    by (simp only: of_nat_le_iff)
  then have "(2::rat) ^ (k - 1) \<le> of_nat n"
    by simp
  moreover have "(2::rat) powi exponent x = 2 ^ (k - 1)"
    by (simp only: e(1) power_int_of_nat)
  ultimately have 1: "2 powi exponent x \<le> x"
    using lo by linarith
  from b(2) have "n + 1 \<le> 2 ^ k" by simp
  then have "(of_nat (n + 1) :: rat) \<le> of_nat (2 ^ k)"
    by (simp only: of_nat_le_iff)
  then have "(of_nat n :: rat) + 1 \<le> 2 ^ k"
    by simp
  moreover have "(2::rat) powi (exponent x + 1) = 2 ^ k"
    by (simp only: e(2) power_int_of_nat)
  ultimately have 2: "x < 2 powi (exponent x + 1)"
    using hi by linarith
  from 1 2 show ?thesis ..
next
  case False
  with assms have y: "1 < 1 / x" by simp
  define c where "c = \<lceil>1 / x\<rceil>"
  define m where "m = nat (c - 1)"
  from y have c2: "2 \<le> c" unfolding c_def by linarith
  then have m: "0 < m" by (simp add: m_def)
  from c2 have "int m = c - 1" by (simp add: m_def)
  then have "(of_int (int m) :: rat) = of_int (c - 1)" by (simp only:)
  then have mx: "(of_nat m :: rat) = of_int c - 1" by simp
  have lo: "(of_nat m :: rat) < 1 / x" and hi: "1 / x \<le> of_nat m + 1"
    unfolding mx c_def by linarith+
  define k where "k = floorlog 2 m"
  from floorlog_bounds [of m 2] m have b: "2 ^ (k - 1) \<le> m" "m < 2 ^ k"
    by (simp_all add: k_def)
  from m have k: "0 < k"
    by (simp add: k_def floorlog_eq_zero_iff Suc_le_eq flip: neq0_conv)
  have e: "exponent x = - int k" "exponent x + 1 = - int (k - 1)"
    using False k by (simp_all add: exponent_def k_def m_def c_def)
  from b(2) have "m + 1 \<le> 2 ^ k" by simp
  then have "(of_nat (m + 1) :: rat) \<le> of_nat (2 ^ k)"
    by (simp only: of_nat_le_iff)
  then have "(of_nat m :: rat) + 1 \<le> 2 ^ k"
    by simp
  with hi have "1 / x \<le> 2 ^ k" by linarith
  with assms have "1 / 2 ^ k \<le> x"
    by (simp add: field_simps)
  moreover have "(2::rat) powi exponent x = 1 / 2 ^ k"
    by (simp only: e(1) power_int_minus_divide power_int_of_nat)
  ultimately have 1: "2 powi exponent x \<le> x"
    by simp
  from b(1) have "(of_nat (2 ^ (k - 1)) :: rat) \<le> of_nat m"
    by (simp only: of_nat_le_iff)
  then have "(2::rat) ^ (k - 1) \<le> of_nat m"
    by simp
  with lo have "2 ^ (k - 1) < 1 / x" by linarith
  with assms have "x < 1 / 2 ^ (k - 1)"
    by (simp add: field_simps)
  moreover have "(2::rat) powi (exponent x + 1) = 1 / 2 ^ (k - 1)"
    by (simp only: e(2) power_int_minus_divide power_int_of_nat)
  ultimately have 2: "x < 2 powi (exponent x + 1)"
    by simp
  from 1 2 show ?thesis ..
qed

lemma exponent_less:
  assumes "0 < x" and "x < 2 powi (e + 1)"
  shows "exponent x \<le> e"
proof (rule ccontr)
  assume "\<not> exponent x \<le> e"
  then have "e + 1 \<le> exponent x" by simp
  then have "(2::rat) powi (e + 1) \<le> 2 powi exponent x"
    by (intro power_int_increasing) simp_all
  with exponent_bounds [OF assms(1)] assms(2) show False by linarith
qed

lemma exponent_greater:
  assumes "0 < x" and "2 powi e \<le> x"
  shows "e \<le> exponent x"
proof (rule ccontr)
  assume "\<not> e \<le> exponent x"
  then have "exponent x + 1 \<le> e" by simp
  then have "(2::rat) powi (exponent x + 1) \<le> 2 powi e"
    by (intro power_int_increasing) simp_all
  with exponent_bounds [OF assms(1)] assms(2) show False by linarith
qed

lemma exponent_unique:
  assumes "0 < x" and "2 powi e \<le> x" and "x < 2 powi (e + 1)"
  shows "exponent x = e"
  using exponent_less [OF assms(1,3)] exponent_greater [OF assms(1,2)] by simp

lemma exponent_mono:
  assumes "0 < x" and "x \<le> y"
  shows "exponent x \<le> exponent y"
proof -
  from assms have y: "0 < y" by simp
  from exponent_bounds [OF y] assms(2) have "x < 2 powi (exponent y + 1)" by simp
  with assms(1) show ?thesis by (rule exponent_less)
qed

lemma round_half_even_le:
  assumes "z \<le> of_int N"
  shows "round_half_even z \<le> N"
proof (cases "z = of_int N")
  case True
  then show ?thesis by (simp add: round_half_even_def)
next
  case False
  with assms have "z < of_int N" by simp
  then have "\<lfloor>z\<rfloor> < N" by (simp add: floor_less_iff)
  then show ?thesis by (simp add: round_half_even_def)
qed

lemma round_half_even_ge:
  assumes "of_int N \<le> z"
  shows "N \<le> round_half_even z"
proof -
  from assms have "N \<le> \<lfloor>z\<rfloor>" by (simp add: le_floor_iff)
  then show ?thesis by (simp add: round_half_even_def)
qed

lemma mantissa_bounds:
  assumes "0 < x"
  shows "2 ^ 52 \<le> round_half_even (x * 2 powi (52 - exponent x))"
    and "round_half_even (x * 2 powi (52 - exponent x)) \<le> 2 ^ 53"
proof -
  let ?s = "(2::rat) powi (52 - exponent x)"
  have s: "0 < ?s" by (rule two_powi_pos)
  from exponent_bounds [OF assms] have "2 powi exponent x * ?s \<le> x * ?s"
    and "x * ?s \<le> 2 powi (exponent x + 1) * ?s"
    using s by (simp_all add: mult_right_mono)
  moreover have "(2::rat) powi exponent x * ?s = 2 powi 52"
    by (simp flip: power_int_add)
  moreover have "(2::rat) powi (exponent x + 1) * ?s = 2 powi 53"
    by (simp flip: power_int_add)
  ultimately have lo: "of_int (2 ^ 52) \<le> x * ?s" and hi: "x * ?s \<le> of_int (2 ^ 53)"
    by simp_all
  from lo show "2 ^ 52 \<le> round_half_even (x * ?s)"
    by (rule round_half_even_ge)
  from hi show "round_half_even (x * ?s) \<le> 2 ^ 53"
    by (rule round_half_even_le)
qed

lemma round_pos_pos:
  assumes "0 < x"
  shows "0 < round_pos x"
proof -
  from mantissa_bounds(1) [OF assms] have "0 < round_half_even (x * 2 powi (52 - exponent x))"
    by simp
  then show ?thesis
    by (simp add: round_pos_def two_powi_pos zero_less_mult_iff)
qed

lemma round_pos_le:
  assumes "0 < x" and "x \<le> c" and "on_grid c"
  shows "round_pos x \<le> c"
proof -
  from assms(3) obtain K :: int where K: "c * 2 powi (52 - exponent c) = of_int K"
    by (auto simp: on_grid_def elim: Ints_cases)
  define d where "d = nat (exponent c - exponent x)"
  from exponent_mono [OF assms(1,2)] have d: "exponent c - exponent x = int d"
    by (simp add: d_def)
  have "c * 2 powi (52 - exponent x) = c * 2 powi (52 - exponent c) * 2 powi (exponent c - exponent x)"
    by (simp add: mult.assoc flip: power_int_add)
  also have "\<dots> = of_int (K * 2 ^ d)"
    by (simp add: K d)
  finally have c: "c * 2 powi (52 - exponent x) = of_int (K * 2 ^ d)" .
  from assms(2) have "x * 2 powi (52 - exponent x) \<le> c * 2 powi (52 - exponent x)"
    by (intro mult_right_mono) (simp_all add: two_powi_pos less_imp_le)
  then have "round_half_even (x * 2 powi (52 - exponent x)) \<le> K * 2 ^ d"
    unfolding c by (rule round_half_even_le)
  then have "(of_int (round_half_even (x * 2 powi (52 - exponent x))) :: rat) \<le> of_int (K * 2 ^ d)"
    by (simp only: of_int_le_iff)
  then have "round_pos x \<le> of_int (K * 2 ^ d) * 2 powi (exponent x - 52)"
    unfolding round_pos_def by (intro mult_right_mono) (simp_all add: two_powi_pos less_imp_le)
  also have "\<dots> = c * (2 powi (52 - exponent x) * 2 powi (exponent x - 52))"
    by (simp only: c [symmetric] mult.assoc)
  also have "\<dots> = c"
    by (simp flip: power_int_add)
  finally show ?thesis .
qed

lemma on_grid_round_pos:
  assumes "0 < x"
  shows "on_grid (round_pos x)"
proof -
  define M where "M = round_half_even (x * 2 powi (52 - exponent x))"
  have r: "round_pos x = of_int M * 2 powi (exponent x - 52)"
    unfolding round_pos_def M_def ..
  from mantissa_bounds [OF assms] have M: "2 ^ 52 \<le> M" "M \<le> 2 ^ 53"
    by (simp_all add: M_def)
  have pos: "0 < round_pos x" by (rule round_pos_pos [OF assms])
  have s: "(0::rat) < 2 powi (exponent x - 52)" by (rule two_powi_pos)
  have e52: "(2::rat) powi 52 * 2 powi (exponent x - 52) = 2 powi exponent x"
    by (simp only: two_powi_add) simp
  have e53: "(2::rat) powi 53 * 2 powi (exponent x - 52) = 2 powi (exponent x + 1)"
    by (simp only: two_powi_add) (simp add: add.commute)
  have p52: "(of_int (2 ^ 52) :: rat) = 2 powi 52" and p53: "(of_int (2 ^ 53) :: rat) = 2 powi 53"
    by simp_all
  show ?thesis
  proof (cases "M = 2 ^ 53")
    case True
    have v: "round_pos x = 2 powi (exponent x + 1)"
      by (simp only: r True p53 e53)
    have "exponent (round_pos x) = exponent x + 1"
    proof (rule exponent_unique [OF pos])
      show "2 powi (exponent x + 1) \<le> round_pos x" by (simp only: v order_refl)
      have "(2::rat) powi (exponent x + 1) < 2 powi (exponent x + 1 + 1)"
        by (rule power_int_strict_increasing) simp_all
      then show "round_pos x < 2 powi (exponent x + 1 + 1)" by (simp only: v)
    qed
    then have "round_pos x * 2 powi (52 - exponent (round_pos x))
        = 2 powi (exponent x + 1) * 2 powi (52 - (exponent x + 1))"
      by (simp only: v)
    also have "\<dots> = 2 powi 52"
      by (simp only: two_powi_add) simp
    also have "\<dots> = of_int (2 ^ 52)"
      by simp
    finally show ?thesis
      unfolding on_grid_def by (simp only: Ints_of_int)
  next
    case False
    with M have lt: "M < 2 ^ 53" by simp
    from M(1) have "(of_int (2 ^ 52) :: rat) \<le> of_int M" by (simp only: of_int_le_iff)
    then have "of_int (2 ^ 52) * 2 powi (exponent x - 52) \<le> round_pos x"
      unfolding r using s by (simp only: mult_le_cancel_right_pos)
    then have lo: "2 powi exponent x \<le> round_pos x"
      by (simp only: p52 e52)
    from lt have "(of_int M :: rat) < of_int (2 ^ 53)" by (simp only: of_int_less_iff)
    then have "round_pos x < of_int (2 ^ 53) * 2 powi (exponent x - 52)"
      unfolding r using s by (simp only: mult_less_cancel_right_pos)
    then have hi: "round_pos x < 2 powi (exponent x + 1)"
      by (simp only: p53 e53)
    have "exponent (round_pos x) = exponent x"
      by (rule exponent_unique [OF pos lo hi])
    then have "round_pos x * 2 powi (52 - exponent (round_pos x))
        = of_int M * (2 powi (exponent x - 52) * 2 powi (52 - exponent x))"
      by (simp only: r mult.assoc)
    also have "2 powi (exponent x - 52) * 2 powi (52 - exponent x) = (1::rat)"
      by (simp only: two_powi_add) simp
    finally have "round_pos x * 2 powi (52 - exponent (round_pos x)) = of_int M"
      by simp
    then show ?thesis
      unfolding on_grid_def by (simp only: Ints_of_int)
  qed
qed

lemma double_pos_iff: "0 < double x \<longleftrightarrow> 0 < x"
  using round_pos_pos [of x] round_pos_pos [of "- x"] by (auto simp: double_def)

lemma double_neg_iff: "double x < 0 \<longleftrightarrow> x < 0"
  using round_pos_pos [of x] round_pos_pos [of "- x"] by (auto simp: double_def)

lemma double_zero_iff: "double x = 0 \<longleftrightarrow> x = 0"
  using double_pos_iff [of x] double_neg_iff [of x] by (auto simp: double_def)

lemma double_le:
  assumes "0 \<le> x" and "x \<le> c" and "on_grid c"
  shows "double x \<le> c"
proof (cases "x = 0")
  case True
  with assms show ?thesis by (simp add: double_def)
next
  case False
  with assms(1) have "0 < x" by simp
  with round_pos_le [OF this assms(2,3)] show ?thesis by (simp add: double_def)
qed

lemma on_grid_double:
  assumes "0 < x"
  shows "on_grid (double x)"
  using assms on_grid_round_pos [OF assms] by (simp add: double_def)

lemma on_grid_1: "on_grid 1"
  by (simp add: on_grid_def exponent_def compute_floorlog)

lemma on_grid_100: "on_grid 100"
  by (simp add: on_grid_def exponent_def compute_floorlog)

lemma round_half_even_mono:
  assumes "z \<le> w"
  shows "round_half_even z \<le> round_half_even w"
proof (cases "\<lfloor>z\<rfloor> = \<lfloor>w\<rfloor>")
  case True
  with assms show ?thesis
    by (simp add: round_half_even_def)
next
  case False
  with assms have "\<lfloor>z\<rfloor> + 1 \<le> \<lfloor>w\<rfloor>"
    using floor_mono [of z w] by simp
  moreover have "z \<le> of_int (\<lfloor>z\<rfloor> + 1)" by linarith
  then have "round_half_even z \<le> \<lfloor>z\<rfloor> + 1" by (rule round_half_even_le)
  moreover have "of_int \<lfloor>w\<rfloor> \<le> w" by simp
  then have "\<lfloor>w\<rfloor> \<le> round_half_even w" by (rule round_half_even_ge)
  ultimately show ?thesis by simp
qed

lemma exponent_two_powi: "exponent (2 powi k) = k"
proof (rule exponent_unique)
  show "0 < (2::rat) powi k" by (rule two_powi_pos)
  show "(2::rat) powi k \<le> 2 powi k" by simp
  show "(2::rat) powi k < 2 powi (k + 1)"
    by (rule power_int_strict_increasing) simp_all
qed

lemma on_grid_two_powi: "on_grid (2 powi k)"
proof -
  have "(2::rat) powi k * 2 powi (52 - k) = 2 powi 52"
    by (simp only: two_powi_add) simp
  also have "\<dots> = of_int (2 ^ 52)" by simp
  finally show ?thesis
    unfolding on_grid_def exponent_two_powi by (simp only: Ints_of_int)
qed

lemma round_pos_ge_two_powi:
  assumes "0 < x"
  shows "2 powi exponent x \<le> round_pos x"
proof -
  have s: "(0::rat) < 2 powi (exponent x - 52)" by (rule two_powi_pos)
  have e52: "(2::rat) powi 52 * 2 powi (exponent x - 52) = 2 powi exponent x"
    by (simp only: two_powi_add) simp
  have p52: "(of_int (2 ^ 52) :: rat) = 2 powi 52" by simp
  from mantissa_bounds(1) [OF assms]
  have "(of_int (2 ^ 52) :: rat) \<le> of_int (round_half_even (x * 2 powi (52 - exponent x)))"
    by (simp only: of_int_le_iff)
  then have "of_int (2 ^ 52) * 2 powi (exponent x - 52) \<le> round_pos x"
    unfolding round_pos_def using s by (simp only: mult_le_cancel_right_pos)
  then show ?thesis by (simp only: p52 e52)
qed

lemma round_pos_mono:
  assumes "0 < x" and "x \<le> y"
  shows "round_pos x \<le> round_pos y"
proof (cases "exponent x = exponent y")
  case True
  have s: "(0::rat) < 2 powi (52 - exponent y)" and t: "(0::rat) < 2 powi (exponent y - 52)"
    by (rule two_powi_pos)+
  from assms(2) s have "x * 2 powi (52 - exponent y) \<le> y * 2 powi (52 - exponent y)"
    by (simp only: mult_le_cancel_right_pos)
  then have "round_half_even (x * 2 powi (52 - exponent y))
      \<le> round_half_even (y * 2 powi (52 - exponent y))"
    by (rule round_half_even_mono)
  then have "(of_int (round_half_even (x * 2 powi (52 - exponent y))) :: rat)
      \<le> of_int (round_half_even (y * 2 powi (52 - exponent y)))"
    by (simp only: of_int_le_iff)
  with t show ?thesis
    unfolding round_pos_def True by (simp only: mult_le_cancel_right_pos)
next
  case False
  from assms have y: "0 < y" by simp
  from False exponent_mono [OF assms] have "exponent x + 1 \<le> exponent y" by simp
  then have le: "(2::rat) powi (exponent x + 1) \<le> 2 powi exponent y"
    by (intro power_int_increasing) simp_all
  from exponent_bounds [OF assms(1)] have "x \<le> 2 powi (exponent x + 1)" by simp
  from round_pos_le [OF assms(1) this on_grid_two_powi]
  have "round_pos x \<le> 2 powi (exponent x + 1)" .
  also note le
  also note round_pos_ge_two_powi [OF y]
  finally show ?thesis .
qed

lemma double_mono:
  assumes "x \<le> y"
  shows "double x \<le> double y"
proof -
  consider "0 < x" | "x = 0" | "x < 0" "y < 0" | "x < 0" "0 \<le> y" by linarith
  then show ?thesis
  proof cases
    case 1
    with assms round_pos_mono [OF 1 assms] show ?thesis by (simp add: double_def)
  next
    case 2
    with assms double_pos_iff [of y] double_zero_iff [of y] show ?thesis
      by (cases "y = 0") (simp_all add: double_def less_imp_le)
  next
    case 3
    with assms round_pos_mono [of "- y" "- x"] show ?thesis by (simp add: double_def)
  next
    case 4
    with double_neg_iff [of x] double_neg_iff [of y] show ?thesis by simp
  qed
qed

lemma double_nonneg: "0 \<le> x \<Longrightarrow> 0 \<le> double x"
  using double_neg_iff [of x] by simp

lemma double_of_grid:
  assumes "0 < c" and "on_grid c"
  shows "double c = c"
proof -
  from assms(2) obtain K :: int where K: "c * 2 powi (52 - exponent c) = of_int K"
    by (auto simp: on_grid_def elim: Ints_cases)
  have "round_half_even (of_int K) = K"
    by (simp add: round_half_even_def)
  then have "round_pos c = c * (2 powi (52 - exponent c) * 2 powi (exponent c - 52))"
    unfolding round_pos_def K by (simp only: K [symmetric] mult.assoc)
  also have "2 powi (52 - exponent c) * 2 powi (exponent c - 52) = (1::rat)"
    by (simp only: two_powi_add) simp
  finally show ?thesis using assms(1) by (simp add: double_def)
qed

section \<open>Rounding to an integer\<close>

lemma floor_rat_numeral_div:
  "\<lfloor>(numeral a :: rat) / numeral b\<rfloor> = numeral a div numeral b"
  using floor_divide_of_int_eq [of "numeral a" "numeral b", where ?'a = rat] by simp

lemma Math_round_floor: "Math_round (Fin x) = Fin (of_int \<lfloor>x + 1 / 2\<rfloor>)"
proof (cases "x - of_int \<lfloor>x\<rfloor> < 1 / 2")
  case True
  then have "\<lfloor>x + 1 / 2\<rfloor> = \<lfloor>x\<rfloor>"
    by (intro floor_unique) (linarith+)
  with True show ?thesis by simp
next
  case False
  then have "\<lfloor>x + 1 / 2\<rfloor> = \<lfloor>x\<rfloor> + 1"
    by (intro floor_unique) (simp; linarith)+
  with False show ?thesis by simp
qed

section \<open>From a product record to a deal item\<close>

lemma promo_filter_iff:
  "promo_filter p \<longleftrightarrow> (\<exists>v. promo_of p = Some v \<and> 0 < v)"
  by (cases "promo_of p") (simp_all add: promo_filter_def double_pos_iff)

lemma deal_of_InrD:
  assumes "deal_of category p = Inr d"
  shows "\<exists>item rest pr r pm. items p = Some (item # rest) \<and> price item = Some pr
     \<and> regular pr = Some r \<and> promo pr = Some pm
     \<and> d = \<lparr>d_id = productId p, d_upc = or_empty (i_upc item),
             d_name = description p, d_brand = or_empty (p_brand p),
             d_category = category,
             regularPrice = toFixed2 (double r), salePrice = toFixed2 (double pm),
             savings = toFixed2 (double (double r - double pm)),
             pctOff = pct (Fin (double r)) (Fin (double pm)),
             d_size = or_empty (i_size item), image = thumbnail p\<rparr>"
  using assms
  by (auto simp: deal_of_def Let_def split: option.splits list.splits)

lemma milk_promo: "promo_filter milk"
  by (simp add: promo_filter_def promo_of_def milk_def double_pos_iff)

lemma deal_of_milk: "deal_of ''dairy'' milk = Inr milk_deal"
  by code_simp






text \<open>
  C6. A product record whose promotional price is absent (no items, no price data, no
  promo field) or not strictly positive yields no deal item: the products of a category
  are the same with the record and without it, and the record alone yields nothing.
\<close>

theorem C6_no_deal_without_positive_promo:
  assumes "items p = None \<or> items p = Some []
     \<or> (\<exists>item rest. items p = Some (item # rest)
          \<and> (price item = None
              \<or> (\<exists>pr. price item = Some pr
                    \<and> (promo pr = None \<or> (\<exists>v. promo pr = Some v \<and> v \<le> 0)))))"
  shows "products category (xs @ p # ys) = products category (xs @ ys)
     \<and> category_callback (Body (Some (xs @ p # ys))) category
         = category_callback (Body (Some (xs @ ys))) category
     \<and> category_callback (Body (Some [p])) category = []"
proof -
  from assms have "\<not> promo_filter p"
    by (auto simp: promo_filter_iff promo_of_def)
  then have "filter promo_filter (xs @ p # ys) = filter promo_filter (xs @ ys)"
    and "filter promo_filter [p] = []"
    by simp_all
  then show ?thesis
    by (simp add: products_def category_callback_def)
qed

theorem C6_no_deal_without_positive_promo_witness:
  "(\<exists>item rest. items bananas = Some (item # rest)
          \<and> (\<exists>pr. price item = Some pr \<and> (\<exists>v. promo pr = Some v \<and> v \<le> 0)))
   \<and> products ''fruit'' ([milk] @ bananas # []) = products ''fruit'' ([milk] @ [])
   \<and> category_callback (Body (Some [bananas])) ''fruit'' = []"
proof -
  have h: "\<exists>item rest. items bananas = Some (item # rest)
          \<and> (\<exists>pr. price item = Some pr \<and> (\<exists>v. promo pr = Some v \<and> v \<le> 0))"
    by (simp add: bananas_def)
  then have "items bananas = None \<or> items bananas = Some []
     \<or> (\<exists>item rest. items bananas = Some (item # rest)
          \<and> (price item = None
              \<or> (\<exists>pr. price item = Some pr
                    \<and> (promo pr = None \<or> (\<exists>v. promo pr = Some v \<and> v \<le> 0)))))"
    by blast
  from C6_no_deal_without_positive_promo [OF this, of "''fruit''" "[milk]" "[]"] h
  show ?thesis by blast
qed



section \<open>The fan-out loop\<close>

lemma less_ceil_div_iff:
  assumes "0 < (b::nat)"
  shows "k < (n + b - 1) div b \<longleftrightarrow> k * b < n"
proof -
  have "k < (n + b - 1) div b \<longleftrightarrow> Suc k \<le> (n + b - 1) div b" by auto
  also have "\<dots> \<longleftrightarrow> Suc k * b \<le> n + b - 1"
    using assms by (simp add: less_eq_div_iff_mult_less_eq)
  also have "\<dots> \<longleftrightarrow> k * b < n"
    using assms by (cases n) auto
  finally show ?thesis .
qed

lemma fetch_loop_from:
  assumes "0 < b" and "k \<le> (length cats + b - 1) div b"
  shows "fetch_loop w t l cats b (k * b) st
     = Some (foldl (\<lambda>s batch. run_batch w t l batch s) st
              (map (\<lambda>j. slice cats (j * b) (j * b + b)) [k..<(length cats + b - 1) div b]))"
  using assms(2)
proof (induction "(length cats + b - 1) div b - k" arbitrary: k st)
  case 0
  then have "k = (length cats + b - 1) div b" by simp
  then have "\<not> k * b < length cats"
    using less_ceil_div_iff [OF assms(1), of k "length cats"] by simp
  then show ?case
    using \<open>k = _\<close> by (subst fetch_loop.simps) simp
next
  case (Suc m)
  then have lt: "k < (length cats + b - 1) div b" by simp
  then have "k * b < length cats"
    using less_ceil_div_iff [OF assms(1)] by simp
  moreover have "fetch_loop w t l cats b (Suc k * b) (run_batch w t l (slice cats (k * b) (k * b + b)) st)
     = Some (foldl (\<lambda>s batch. run_batch w t l batch s) (run_batch w t l (slice cats (k * b) (k * b + b)) st)
              (map (\<lambda>j. slice cats (j * b) (j * b + b)) [Suc k..<(length cats + b - 1) div b]))"
    using Suc lt by (intro Suc.hyps(1)) auto
  ultimately show ?case
    using lt by (subst fetch_loop.simps) (simp add: upt_conv_Cons add.commute)
qed

lemma fetch_loop_batches:
  assumes "0 < b"
  shows "fetch_loop w t l cats b 0 st
     = Some (foldl (\<lambda>s batch. run_batch w t l batch s) st (batches b cats))"
  using fetch_loop_from [OF assms, of 0 cats w t l st] by (simp add: batches_def)

text \<open>With a batch size of zero the loop does not end while a category is left.\<close>

lemma fetch_loop_zero_batch:
  assumes "i < length cats"
  shows "fetch_loop w t l cats 0 i st = None"
proof (cases "fetch_loop w t l cats 0 i st")
  case None
  then show ?thesis .
next
  case (Some y)
  have "b = 0 \<longrightarrow> \<not> i < length cats"
    if "fetch_loop w t l cats b i st = Some y" for w t l cats b i st y
    using that
  proof (rule fetch_loop.raw_induct
      [rotated, where P = "\<lambda>w t l cats b i st y. b = 0 \<longrightarrow> \<not> i < length cats"])
    fix f :: "world \<Rightarrow> string \<Rightarrow> string \<Rightarrow> string list \<Rightarrow> nat \<Rightarrow> nat \<Rightarrow> fan_state \<Rightarrow> fan_state option"
    fix w t l cats b i st y
    assume IH: "\<And>w t l cats b i st y. f w t l cats b i st = Some y \<Longrightarrow> b = 0 \<longrightarrow> \<not> i < length cats"
      and step: "(if i < length cats
         then f w t l cats b (i + b) (run_batch w t l (slice cats i (i + b)) st)
         else Some st) = Some y"
    show "b = 0 \<longrightarrow> \<not> i < length cats"
    proof (intro impI notI)
      assume "b = 0" and "i < length cats"
      with step have "f w t l cats 0 i (run_batch w t l (slice cats i i) st) = Some y"
        by simp
      from IH [OF this] \<open>i < length cats\<close> show False by simp
    qed
  qed
  from this [OF Some] assms show ?thesis by simp
qed

lemma concat_slices: "concat (map (\<lambda>k. slice xs (k * b) (k * b + b)) [0..<m]) = take (m * b) xs"
proof (induction m)
  case 0
  show ?case by simp
next
  case (Suc m)
  have "take (m * b + b) xs = take (m * b) xs @ take b (drop (m * b) xs)"
    by (rule take_add)
  with Suc show ?case
    by (simp add: slice_def add.commute)
qed

lemma concat_batches:
  assumes "0 < b"
  shows "concat (batches b xs) = xs"
proof -
  have "\<not> ((length xs + b - 1) div b) * b < length xs"
    using less_ceil_div_iff [OF assms, of "(length xs + b - 1) div b" "length xs"] by simp
  then show ?thesis
    by (simp add: batches_def concat_slices)
qed

lemma length_batches: "length (batches b xs) = (length xs + b - 1) div b"
  by (simp add: batches_def)

lemma batches_nth:
  assumes "k < length (batches b xs)"
  shows "batches b xs ! k = take b (drop (k * b) xs)"
  using assms by (simp add: batches_def slice_def)

lemma batch_length:
  assumes "0 < b" and "k < length (batches b xs)"
  shows "0 < length (batches b xs ! k)" and "length (batches b xs ! k) \<le> b"
    and "Suc k < length (batches b xs) \<Longrightarrow> length (batches b xs ! k) = b"
proof -
  from assms have "k * b < length xs"
    by (simp only: length_batches less_ceil_div_iff)
  with assms show "0 < length (batches b xs ! k)" and "length (batches b xs ! k) \<le> b"
    by (simp_all add: batches_nth)
  assume "Suc k < length (batches b xs)"
  with assms(1) have "Suc k * b < length xs"
    by (simp only: length_batches less_ceil_div_iff)
  with assms show "length (batches b xs ! k) = b"
    by (simp add: batches_nth)
qed

lemma ceiling_batches:
  assumes "0 < b"
  shows "int ((n + b - 1) div b) = \<lceil>(of_nat n :: rat) / of_nat b\<rceil>"
proof (rule sym, rule ceiling_unique)
  let ?m = "(n + b - 1) div b"
  have "\<not> ?m * b < n"
    using less_ceil_div_iff [OF assms, of ?m n] by simp
  then have "(of_nat n :: rat) \<le> of_nat (?m * b)"
    by (simp only: of_nat_le_iff not_less)
  then show "(of_nat n :: rat) / of_nat b \<le> of_int (int ?m)"
    using assms by (simp add: divide_le_eq)
  show "of_int (int ?m) - 1 < (of_nat n :: rat) / of_nat b"
  proof (cases ?m)
    case 0
    have "(0::rat) \<le> of_nat n / of_nat b" by simp
    then have "- 1 < (of_nat n :: rat) / of_nat b" by linarith
    with 0 show ?thesis by simp
  next
    case (Suc j)
    then have "j < ?m" by simp
    then have "j * b < n"
      using less_ceil_div_iff [OF assms] by simp
    then have "(of_nat (j * b) :: rat) < of_nat n"
      by (simp only: of_nat_less_iff)
    then show ?thesis
      using assms Suc by (simp add: less_divide_eq)
  qed
qed

lemma foldl_run_batch:
  "foldl (\<lambda>s batch. run_batch w t l batch s) st bs =
     \<lparr>allProducts = allProducts st @ pushed w t l (concat (map (sort_key (latency w)) bs)),
      trace = trace st
        @ concat (map (\<lambda>batch. map Issued batch @ map Settled (sort_key (latency w) batch)) bs)\<rparr>"
proof (induction bs arbitrary: st)
  case Nil
  show ?case by (simp add: pushed_def)
next
  case (Cons batch bs)
  show ?case
    by (simp add: Cons.IH) (simp add: run_batch_def pushed_def Let_def)
qed

lemma fetch_loop_result:
  assumes "0 < b"
  shows "fetch_loop w t l cats b 0 st =
     Some \<lparr>allProducts = allProducts st @ pushed w t l (finish_order w b cats),
           trace = trace st
             @ concat (map (\<lambda>batch. map Issued batch @ map Settled (sort_key (latency w) batch))
                 (batches b cats))\<rparr>"
  by (simp add: fetch_loop_batches [OF assms] foldl_run_batch finish_order_def)

lemma mset_finish_order:
  assumes "0 < b"
  shows "mset (finish_order w b cats) = mset cats"
proof -
  have "mset (concat (map (sort_key (latency w)) bs)) = mset (concat bs)" for bs
    by (induction bs) simp_all
  then show ?thesis
    by (simp add: finish_order_def concat_batches [OF assms])
qed

lemma api_deals_eq:
  assumes "loc \<noteq> []" and "getAppToken w = Inr token"
  shows "api_deals w (Some loc)
     = Some (Json (unique (pushed w token loc (finish_order w batchSize DEAL_CATEGORIES))))"
proof -
  have "0 < batchSize" by (simp add: batchSize_def)
  from fetch_loop_result [OF this] assms show ?thesis
    by (simp add: api_deals_def)
qed

text \<open>
  C7. For a positive batch size \<open>b\<close> the loop ends, and it has taken the category list
  apart into the consecutive slices of \<open>b\<close> categories (the last one possibly shorter):
  there are \<open>ceil(n / b)\<close> of them, none is empty or longer than \<open>b\<close>, and together
  they are the list. The trace is one block per slice, in order: the requests of the slice
  are issued, then all its callbacks finish (a permutation of the slice), and only then
  does the block of the next slice begin.
\<close>

theorem C7_batches:
  assumes "0 < b"
  shows "\<exists>st. fetch_loop w token loc cats b 0 st0 = Some st
     \<and> trace st = trace st0
         @ concat (map (\<lambda>batch. map Issued batch @ map Settled (sort_key (latency w) batch))
             (batches b cats))
     \<and> concat (batches b cats) = cats
     \<and> int (length (batches b cats)) = \<lceil>(of_nat (length cats) :: rat) / of_nat b\<rceil>
     \<and> (\<forall>k < length (batches b cats).
           batches b cats ! k = take b (drop (k * b) cats)
           \<and> 0 < length (batches b cats ! k) \<and> length (batches b cats ! k) \<le> b
           \<and> (Suc k < length (batches b cats) \<longrightarrow> length (batches b cats ! k) = b))
     \<and> (\<forall>batch \<in> set (batches b cats). mset (sort_key (latency w) batch) = mset batch)"
proof -
  let ?st = "\<lparr>allProducts = allProducts st0 @ pushed w token loc (finish_order w b cats),
           trace = trace st0
             @ concat (map (\<lambda>batch. map Issued batch @ map Settled (sort_key (latency w) batch))
                 (batches b cats))\<rparr>"
  have 1: "fetch_loop w token loc cats b 0 st0 = Some ?st"
    by (rule fetch_loop_result [OF assms])
  have 2: "trace ?st = trace st0
         @ concat (map (\<lambda>batch. map Issued batch @ map Settled (sort_key (latency w) batch))
             (batches b cats))"
    by simp
  have 3: "concat (batches b cats) = cats"
    by (rule concat_batches [OF assms])
  have 4: "int (length (batches b cats)) = \<lceil>(of_nat (length cats) :: rat) / of_nat b\<rceil>"
    by (simp only: length_batches ceiling_batches [OF assms])
  have 5: "\<forall>k < length (batches b cats).
           batches b cats ! k = take b (drop (k * b) cats)
           \<and> 0 < length (batches b cats ! k) \<and> length (batches b cats ! k) \<le> b
           \<and> (Suc k < length (batches b cats) \<longrightarrow> length (batches b cats ! k) = b)"
    using batch_length [OF assms] batches_nth by blast
  have 6: "\<forall>batch \<in> set (batches b cats). mset (sort_key (latency w) batch) = mset batch"
    by simp
  from 1 2 3 4 5 6 show ?thesis by blast
qed

theorem C7_batches_witness:
  "0 < batchSize
   \<and> (\<exists>st. fetch_loop silent ''token'' ''01400943'' DEAL_CATEGORIES batchSize 0
              \<lparr>allProducts = [], trace = []\<rparr> = Some st
     \<and> trace st = trace \<lparr>allProducts = [], trace = []\<rparr>
         @ concat (map (\<lambda>batch. map Issued batch @ map Settled (sort_key (latency silent) batch))
             (batches batchSize DEAL_CATEGORIES))
     \<and> concat (batches batchSize DEAL_CATEGORIES) = DEAL_CATEGORIES
     \<and> int (length (batches batchSize DEAL_CATEGORIES))
         = \<lceil>(of_nat (length DEAL_CATEGORIES) :: rat) / of_nat batchSize\<rceil>
     \<and> (\<forall>k < length (batches batchSize DEAL_CATEGORIES).
           batches batchSize DEAL_CATEGORIES ! k = take batchSize (drop (k * batchSize) DEAL_CATEGORIES)
           \<and> 0 < length (batches batchSize DEAL_CATEGORIES ! k)
           \<and> length (batches batchSize DEAL_CATEGORIES ! k) \<le> batchSize
           \<and> (Suc k < length (batches batchSize DEAL_CATEGORIES)
                \<longrightarrow> length (batches batchSize DEAL_CATEGORIES ! k) = batchSize))
     \<and> (\<forall>batch \<in> set (batches batchSize DEAL_CATEGORIES).
           mset (sort_key (latency silent) batch) = mset batch))
   \<and> length DEAL_CATEGORIES = 63 \<and> length (batches batchSize DEAL_CATEGORIES) = 8"
proof -
  have h: "0 < batchSize" by (simp add: batchSize_def)
  have "length DEAL_CATEGORIES = 63" by (simp add: DEAL_CATEGORIES_def)
  then have "length (batches batchSize DEAL_CATEGORIES) = 8"
    by (simp add: length_batches batchSize_def)
  with \<open>length DEAL_CATEGORIES = 63\<close> h
    C7_batches [OF h, of silent "''token''" "''01400943''" DEAL_CATEGORIES
      "\<lparr>allProducts = [], trace = []\<rparr>"]
  show ?thesis by blast
qed


section \<open>Where the pushed products come from\<close>

lemma map_throw_InrD:
  "map_throw f xs = Inr ys \<Longrightarrow> y \<in> set ys \<Longrightarrow> \<exists>x \<in> set xs. f x = Inr y"
  by (induction xs arbitrary: ys) (auto split: sum.splits)

lemma callback_failed [simp]:
  "category_callback Transport_error c = []"
  "category_callback Not_ok c = []"
  "category_callback Bad_body c = []"
  by (simp_all add: category_callback_def)

lemma callback_Body:
  "products c (case d of None \<Rightarrow> [] | Some ds \<Rightarrow> ds) = Inr ps
    \<Longrightarrow> category_callback (Body d) c = ps"
  by (simp add: category_callback_def)

lemma products_Nil: "products c [] = Inr []"
  by (simp add: products_def)

lemma callback_provenance:
  assumes "d \<in> set (category_callback r c)"
  shows "\<exists>body p. r = Body (Some body) \<and> p \<in> set body \<and> promo_filter p \<and> deal_of c p = Inr d"
proof -
  from assms obtain d0 where r: "r = Body d0"
    by (cases r) (simp_all add: category_callback_def)
  from assms r obtain body where d0: "d0 = Some body"
    by (cases d0) (simp_all add: category_callback_def products_Nil)
  from assms r d0 obtain ps where ps: "products c body = Inr ps" and d: "d \<in> set ps"
    by (cases "products c body") (simp_all add: category_callback_def)
  from ps d obtain p where "p \<in> set (filter promo_filter body)" "deal_of c p = Inr d"
    unfolding products_def by (blast dest: map_throw_InrD)
  with r d0 show ?thesis by auto
qed

lemma set_pushed:
  "set (pushed w t l order) = (\<Union>c \<in> set order. set (category_callback (catalog w t l c) c))"
  by (simp add: pushed_def)

lemma set_finish_order:
  assumes "0 < b"
  shows "set (finish_order w b cats) = set cats"
  using mset_finish_order [OF assms, of w cats] by (metis set_mset_mset)

lemma slice_0: "slice xs 0 n = take n xs"
  by (simp add: slice_def)

lemma unique_Nil: "unique [] = []"
  by (simp add: unique_def slice_0 Array_sort_def)

lemma sort_key_const: "sort_key (\<lambda>x. k) xs = xs"
  by (induction xs) (simp_all add: insort_is_Cons)

lemma finish_order_at_once:
  assumes "0 < b" and "latency w = (\<lambda>c. 0)"
  shows "finish_order w b cats = cats"
proof -
  have "map (sort_key (latency w)) bs = bs" for bs
    by (induction bs) (simp_all add: assms(2) sort_key_const)
  then show ?thesis
    by (simp add: finish_order_def concat_batches [OF assms(1)])
qed

lemma single_result_deals:
  assumes "loc \<noteq> []"
  shows "api_deals (single_result c ps) (Some loc)
     = Some (Json (unique (pushed (single_result c ps) ''token'' loc DEAL_CATEGORIES)))"
proof -
  have t: "getAppToken (single_result c ps) = Inr ''token''"
    by (simp add: getAppToken_def single_result_def)
  have "0 < batchSize" by (simp add: batchSize_def)
  then have "finish_order (single_result c ps) batchSize DEAL_CATEGORIES = DEAL_CATEGORIES"
    by (rule finish_order_at_once) (simp add: single_result_def)
  with api_deals_eq [OF assms t] show ?thesis
    by simp
qed

lemma unique_single: "unique [d] = [d]"
  by (simp add: unique_def slice_0 Array_sort_def)

lemma map_throw_Inr_iff: "map_throw f xs = Inr ys \<longleftrightarrow> map f xs = map Inr ys"
proof (induction xs arbitrary: ys)
  case Nil
  show ?case by auto
next
  case (Cons x xs)
  show ?case
  proof (cases "f x")
    case (Inl e)
    then show ?thesis by (cases ys) simp_all
  next
    case (Inr y)
    show ?thesis
    proof (cases "map_throw f xs")
      case (Inl e)
      with Cons [of "tl ys"] Inr show ?thesis by (cases ys) auto
    next
      case r: (Inr zs)
      with Cons [of zs] Cons [of "tl ys"] Inr show ?thesis by (cases ys) auto
    qed
  qed
qed

lemma map_throw_Inl_iff: "(\<exists>e. map_throw f xs = Inl e) \<longleftrightarrow> (\<exists>x \<in> set xs. \<exists>e. f x = Inl e)"
  by (induction xs) (auto split: sum.splits)

lemma deal_of_Inl_iff:
  assumes "promo_filter p"
  shows "(\<exists>e. deal_of c p = Inl e)
     \<longleftrightarrow> (\<exists>item rest pr. items p = Some (item # rest) \<and> price item = Some pr
            \<and> regular pr = None)"
  using assms
  by (auto simp: promo_filter_iff promo_of_def deal_of_def Let_def
      split: option.splits list.splits)

lemma products_Inl_iff:
  "(\<exists>e. products c ds = Inl e)
     \<longleftrightarrow> (\<exists>p \<in> set ds. promo_filter p
            \<and> (\<exists>item rest pr. items p = Some (item # rest) \<and> price item = Some pr
                 \<and> regular pr = None))"
  unfolding products_def map_throw_Inl_iff
  using deal_of_Inl_iff [of _ c] by auto

lemma callback_thrown:
  "products c (case d of None \<Rightarrow> [] | Some ds \<Rightarrow> ds) = Inl e
    \<Longrightarrow> category_callback (Body d) c = []"
  by (simp add: category_callback_def)

lemma eggs_promo: "promo_filter eggs"
  by (simp add: promo_filter_def promo_of_def eggs_def double_pos_iff)

lemma deal_of_eggs: "deal_of ''dairy'' eggs = Inr eggs_deal"
  by code_simp

lemma cream_promo: "promo_filter cream"
  by (simp add: promo_filter_def promo_of_def cream_def double_pos_iff)

lemma deal_of_cream: "deal_of ''dairy'' cream = Inl TypeError"
  by (simp add: deal_of_def cream_def)

text \<open>
  C8 (amended). Once the token is granted the deals route answers with a list of deals,
  whatever the catalog does: the loop ends, and the route answers with the aggregate of
  what was pushed. A search that fails (rejected request, status that is not a success,
  body that cannot be read) pushes nothing. A search that succeeds pushes the deal items
  of all its records with a positive promotional price, unless one of these records has
  no regular price: mapping that record throws, the exception is caught, and the
  category pushes nothing, as if its search had failed. What was pushed is exactly what
  the callbacks of all categories push, each category once. The aggregate of no products
  is empty.
\<close>

theorem C8_failed_searches_are_dropped:
  assumes "loc \<noteq> []" and "getAppToken w = Inr token"
  shows "\<exists>st. fetch_loop w token loc DEAL_CATEGORIES batchSize 0
                 \<lparr>allProducts = [], trace = []\<rparr> = Some st
     \<and> api_deals w (Some loc) = Some (Json (unique (allProducts st)))
     \<and> allProducts st = pushed w token loc (finish_order w batchSize DEAL_CATEGORIES)
     \<and> mset (finish_order w batchSize DEAL_CATEGORIES) = mset DEAL_CATEGORIES
     \<and> (\<forall>c \<in> set DEAL_CATEGORIES.
           (catalog w token loc c \<in> {Transport_error, Not_ok, Bad_body}
              \<longrightarrow> category_callback (catalog w token loc c) c = [])
         \<and> (\<forall>d. catalog w token loc c = Body d \<longrightarrow>
               (if \<exists>p \<in> set (case d of None \<Rightarrow> [] | Some ds \<Rightarrow> ds). promo_filter p
                     \<and> (\<exists>item rest pr. items p = Some (item # rest) \<and> price item = Some pr
                          \<and> regular pr = None)
                then category_callback (catalog w token loc c) c = []
                else \<exists>ps. map (deal_of c)
                             (filter promo_filter (case d of None \<Rightarrow> [] | Some ds \<Rightarrow> ds))
                           = map Inr ps
                       \<and> category_callback (catalog w token loc c) c = ps
                       \<and> set ps \<subseteq> set (allProducts st))))
     \<and> unique [] = []"
proof -
  have b: "0 < batchSize" by (simp add: batchSize_def)
  let ?st = "\<lparr>allProducts = pushed w token loc (finish_order w batchSize DEAL_CATEGORIES),
      trace = concat (map (\<lambda>batch. map Issued batch @ map Settled (sort_key (latency w) batch))
                 (batches batchSize DEAL_CATEGORIES))\<rparr>"
  have 1: "fetch_loop w token loc DEAL_CATEGORIES batchSize 0
                 \<lparr>allProducts = [], trace = []\<rparr> = Some ?st"
    using fetch_loop_result [OF b, of w token loc DEAL_CATEGORIES "\<lparr>allProducts = [], trace = []\<rparr>"]
    by simp
  have 2: "api_deals w (Some loc) = Some (Json (unique (allProducts ?st)))"
    using api_deals_eq [OF assms] by simp
  have 3: "allProducts ?st = pushed w token loc (finish_order w batchSize DEAL_CATEGORIES)"
    by simp
  have 4: "mset (finish_order w batchSize DEAL_CATEGORIES) = mset DEAL_CATEGORIES"
    by (rule mset_finish_order [OF b])
  have 5: "\<forall>c \<in> set DEAL_CATEGORIES.
           (catalog w token loc c \<in> {Transport_error, Not_ok, Bad_body}
              \<longrightarrow> category_callback (catalog w token loc c) c = [])
         \<and> (\<forall>d. catalog w token loc c = Body d \<longrightarrow>
               (if \<exists>p \<in> set (case d of None \<Rightarrow> [] | Some ds \<Rightarrow> ds). promo_filter p
                     \<and> (\<exists>item rest pr. items p = Some (item # rest) \<and> price item = Some pr
                          \<and> regular pr = None)
                then category_callback (catalog w token loc c) c = []
                else \<exists>ps. map (deal_of c)
                             (filter promo_filter (case d of None \<Rightarrow> [] | Some ds \<Rightarrow> ds))
                           = map Inr ps
                       \<and> category_callback (catalog w token loc c) c = ps
                       \<and> set ps \<subseteq> set (allProducts ?st)))"
  proof (intro ballI conjI allI impI)
    fix c assume "catalog w token loc c \<in> {Transport_error, Not_ok, Bad_body}"
    then show "category_callback (catalog w token loc c) c = []" by auto
  next
    fix c d
    assume c: "c \<in> set DEAL_CATEGORIES" and body: "catalog w token loc c = Body d"
    let ?ds = "case d of None \<Rightarrow> [] | Some ds \<Rightarrow> ds"
    let ?thrown = "\<exists>p \<in> set ?ds. promo_filter p
        \<and> (\<exists>item rest pr. items p = Some (item # rest) \<and> price item = Some pr
             \<and> regular pr = None)"
    show "if ?thrown then category_callback (catalog w token loc c) c = []
      else \<exists>ps. map (deal_of c) (filter promo_filter ?ds) = map Inr ps
             \<and> category_callback (catalog w token loc c) c = ps
             \<and> set ps \<subseteq> set (allProducts ?st)"
    proof (cases ?thrown)
      case True
      then have "\<exists>e. products c ?ds = Inl e"
        using products_Inl_iff [of c ?ds] by blast
      then obtain e where "products c ?ds = Inl e" ..
      then have "category_callback (Body d) c = []" by (rule callback_thrown)
      with True body show ?thesis by simp
    next
      case False
      then have "\<nexists>e. products c ?ds = Inl e"
        using products_Inl_iff [of c ?ds] by blast
      then obtain ps where ps: "products c ?ds = Inr ps"
        by (cases "products c ?ds") auto
      then have m: "map (deal_of c) (filter promo_filter ?ds) = map Inr ps"
        by (simp add: products_def map_throw_Inr_iff)
      from ps body have cb: "category_callback (catalog w token loc c) c = ps"
        by (simp add: callback_Body)
      from c have "c \<in> set (finish_order w batchSize DEAL_CATEGORIES)"
        by (simp add: set_finish_order [OF b])
      with cb have "set ps \<subseteq> set (allProducts ?st)"
        by (auto simp: set_pushed)
      with m cb have "\<exists>ps. map (deal_of c) (filter promo_filter ?ds) = map Inr ps
             \<and> category_callback (catalog w token loc c) c = ps
             \<and> set ps \<subseteq> set (allProducts ?st)"
        by blast
      with False show ?thesis by (simp only: if_False)
    qed
  qed
  from 1 2 3 4 5 unique_Nil show ?thesis by blast
qed

text \<open>
  The search for one category succeeds with three records on promotion, of which the
  second has no regular price: the answer is empty, without the deal items of the first
  and the third.
\<close>

theorem C8_counterexample:
  "catalog (single_result ''dairy'' [milk, cream, eggs]) ''token'' ''01400943'' ''dairy''
     = Body (Some [milk, cream, eggs])
   \<and> promo_filter milk \<and> deal_of ''dairy'' milk = Inr milk_deal
   \<and> promo_filter eggs \<and> deal_of ''dairy'' eggs = Inr eggs_deal
   \<and> api_deals (single_result ''dairy'' [milk, cream, eggs]) (Some ''01400943'') = Some (Json [])"
proof -
  have "products ''dairy'' [milk, cream, eggs] = Inl TypeError"
    by (simp add: products_def milk_promo cream_promo deal_of_milk deal_of_cream)
  then have "category_callback (Body (Some [milk, cream, eggs])) ''dairy'' = []"
    by (simp add: category_callback_def)
  then have "pushed (single_result ''dairy'' [milk, cream, eggs]) ''token'' ''01400943''
      DEAL_CATEGORIES = []"
    by (simp add: pushed_def single_result_def DEAL_CATEGORIES_def)
  then have "api_deals (single_result ''dairy'' [milk, cream, eggs]) (Some ''01400943'')
      = Some (Json [])"
    by (simp add: single_result_deals unique_Nil)
  moreover have "catalog (single_result ''dairy'' [milk, cream, eggs]) ''token'' ''01400943''
      ''dairy'' = Body (Some [milk, cream, eggs])"
    by (simp add: single_result_def)
  ultimately show ?thesis
    using milk_promo deal_of_milk eggs_promo deal_of_eggs by simp
qed

lemma milk_deals:
  "api_deals (single_result ''dairy'' [milk]) (Some ''01400943'') = Some (Json [milk_deal])"
proof -
  have "category_callback (Body (Some [milk])) ''dairy'' = [milk_deal]"
    by (simp add: category_callback_def products_def milk_promo deal_of_milk)
  then have "pushed (single_result ''dairy'' [milk]) ''token'' ''01400943'' DEAL_CATEGORIES
      = [milk_deal]"
    by (simp add: pushed_def single_result_def DEAL_CATEGORIES_def)
  then show ?thesis
    by (simp add: single_result_deals unique_single)
qed

theorem C8_failed_searches_are_dropped_witness:
  "''01400943'' \<noteq> [] \<and> getAppToken (single_result ''dairy'' [milk]) = Inr ''token''
   \<and> api_deals (single_result ''dairy'' [milk]) (Some ''01400943'') = Some (Json [milk_deal])
   \<and> (\<exists>st. fetch_loop (single_result ''dairy'' [milk]) ''token'' ''01400943'' DEAL_CATEGORIES batchSize 0
                 \<lparr>allProducts = [], trace = []\<rparr> = Some st
     \<and> api_deals (single_result ''dairy'' [milk]) (Some ''01400943'') = Some (Json (unique (allProducts st)))
     \<and> allProducts st
         = pushed (single_result ''dairy'' [milk]) ''token'' ''01400943''
             (finish_order (single_result ''dairy'' [milk]) batchSize DEAL_CATEGORIES)
     \<and> mset (finish_order (single_result ''dairy'' [milk]) batchSize DEAL_CATEGORIES) = mset DEAL_CATEGORIES
     \<and> (\<forall>c \<in> set DEAL_CATEGORIES.
           (catalog (single_result ''dairy'' [milk]) ''token'' ''01400943'' c \<in> {Transport_error, Not_ok, Bad_body}
              \<longrightarrow> category_callback (catalog (single_result ''dairy'' [milk]) ''token'' ''01400943'' c) c = [])
         \<and> (\<forall>d. catalog (single_result ''dairy'' [milk]) ''token'' ''01400943'' c = Body d \<longrightarrow>
               (if \<exists>p \<in> set (case d of None \<Rightarrow> [] | Some ds \<Rightarrow> ds). promo_filter p
                     \<and> (\<exists>item rest pr. items p = Some (item # rest) \<and> price item = Some pr
                          \<and> regular pr = None)
                then category_callback (catalog (single_result ''dairy'' [milk]) ''token'' ''01400943'' c) c = []
                else \<exists>ps. map (deal_of c)
                             (filter promo_filter (case d of None \<Rightarrow> [] | Some ds \<Rightarrow> ds))
                           = map Inr ps
                       \<and> category_callback (catalog (single_result ''dairy'' [milk]) ''token'' ''01400943'' c) c = ps
                       \<and> set ps \<subseteq> set (allProducts st))))
     \<and> unique [] = [])"
proof -
  have 1: "''01400943'' \<noteq> []" by simp
  have 2: "getAppToken (single_result ''dairy'' [milk]) = Inr ''token''"
    by (simp add: getAppToken_def single_result_def)
  from C8_failed_searches_are_dropped [OF 1 2] 1 2 milk_deals show ?thesis by blast
qed

section \<open>Bounds on the fields of a deal item\<close>

lemma toFixed2_mono:
  assumes "0 \<le> x" and "x \<le> y"
  shows "toFixed2 x \<le> toFixed2 y"
proof -
  from assms have "x * 100 + 1 / 2 \<le> y * 100 + 1 / 2" by simp
  then have "\<lfloor>x * 100 + 1 / 2\<rfloor> \<le> \<lfloor>y * 100 + 1 / 2\<rfloor>" by (rule floor_mono)
  with assms show ?thesis by (simp add: toFixed2_def)
qed

lemma pct_bounds:
  assumes "0 < pm" and "pm \<le> r"
  shows "\<exists>n::int. pct (Fin (double r)) (Fin (double pm)) = Fin (of_int n) \<and> 0 \<le> n \<and> n \<le> 100"
proof -
  define a where "a = double pm"
  define b where "b = double r"
  define s where "s = double (b - a)"
  define t where "t = double (s / b)"
  define u where "u = double (t * 100)"
  from assms have r: "0 < r" by simp
  from assms(1) have a: "0 < a" by (simp add: a_def double_pos_iff)
  from assms(2) have ab: "a \<le> b" unfolding a_def b_def by (rule double_mono)
  from a ab have b: "0 < b" by simp
  from r have grid: "on_grid b" unfolding b_def by (rule on_grid_double)
  from ab have s0: "0 \<le> s" unfolding s_def by (intro double_nonneg) simp
  from ab a have "s \<le> b" unfolding s_def by (intro double_le grid) simp_all
  with s0 b have q: "0 \<le> s / b" "s / b \<le> 1" by simp_all
  from q(1) have t0: "0 \<le> t" unfolding t_def by (rule double_nonneg)
  from q have t1: "t \<le> 1" unfolding t_def by (intro double_le on_grid_1)
  from t0 have u0: "0 \<le> u" unfolding u_def by (intro double_nonneg) simp
  from t0 t1 have u1: "u \<le> 100" unfolding u_def by (intro double_le on_grid_100) simp_all
  from b have "pct (Fin b) (Fin a) = Math_round (Fin u)"
    by (simp add: pct_def u_def t_def s_def del: Math_round.simps)
  then have "pct (Fin b) (Fin a) = Fin (of_int \<lfloor>u + 1 / 2\<rfloor>)"
    by (simp only: Math_round_floor)
  moreover from u0 have "0 \<le> u + 1 / 2" by simp
  then have "0 \<le> \<lfloor>u + 1 / 2\<rfloor>" by (simp only: zero_le_floor)
  moreover from u1 have "u + 1 / 2 < 101" by simp
  then have "\<lfloor>u + 1 / 2\<rfloor> < 101" by (simp only: floor_less_iff of_int_numeral)
  ultimately show ?thesis
    unfolding a_def b_def by (intro exI [of _ "\<lfloor>u + 1 / 2\<rfloor>"]) simp
qed

lemma pct_not_NaN:
  assumes "0 < pm"
  shows "pct (Fin (double r)) (Fin (double pm)) \<noteq> NaN"
proof (cases "double r = 0")
  case True
  from assms have "double (- double pm) < 0"
    by (simp add: double_neg_iff double_pos_iff)
  then have "double (- double pm) \<noteq> 0" and "\<not> 0 < double (- double pm)"
    by simp_all
  with True show ?thesis by (simp add: pct_def)
next
  case False
  then show ?thesis by (simp add: pct_def)
qed

section \<open>Sorting and deduplication\<close>

lemma mset_insert_cmp: "mset (insert_cmp cmp x xs) = add_mset x (mset xs)"
  by (induction xs) simp_all

lemma mset_Array_sort: "mset (Array_sort cmp xs) = mset xs"
  by (induction xs) (simp_all add: Array_sort_def mset_insert_cmp)

lemma set_Array_sort: "set (Array_sort cmp xs) = set xs"
  by (metis mset_Array_sort set_mset_mset)

lemma length_Array_sort: "length (Array_sort cmp xs) = length xs"
  by (metis mset_Array_sort size_mset)

lemma filter_seen_fresh: "p \<in> set (filter_seen S ps) \<Longrightarrow> d_id p \<notin> S"
  by (induction S ps rule: filter_seen.induct) (auto split: if_splits)

lemma set_filter_seen: "set (filter_seen S ps) \<subseteq> set ps"
  by (induction S ps rule: filter_seen.induct) auto

lemma ids_filter_seen: "d_id ` set (filter_seen S ps) = d_id ` set ps - S"
  by (induction S ps rule: filter_seen.induct) auto

lemma distinct_filter_seen: "distinct (map d_id (filter_seen S ps))"
  by (induction S ps rule: filter_seen.induct) (auto dest: filter_seen_fresh)

lemma filter_seen_first:
  "d \<in> set (filter_seen S ps) \<Longrightarrow> find (\<lambda>e. d_id e = d_id d) ps = Some d"
  by (induction S ps rule: filter_seen.induct) (auto split: if_splits dest: filter_seen_fresh)

lemma set_unique: "set (unique ps) \<subseteq> set ps"
proof -
  have "set (unique ps) \<subseteq> set (Array_sort by_pctOff (filter_seen {} ps))"
    by (simp add: unique_def slice_0 set_take_subset)
  then show ?thesis
    using set_filter_seen [of "{}" ps] by (simp add: set_Array_sort)
qed

lemma api_deals_JsonD:
  assumes "api_deals w q = Some (Json ds)"
  shows "\<exists>token loc. q = Some loc \<and> loc \<noteq> [] \<and> getAppToken w = Inr token
     \<and> ds = unique (pushed w token loc (finish_order w batchSize DEAL_CATEGORIES))"
proof -
  from assms obtain loc where q: "q = Some loc" and loc: "loc \<noteq> []"
    by (cases q) (auto simp: api_deals_def split: if_splits)
  from assms q loc obtain token where t: "getAppToken w = Inr token"
    by (cases "getAppToken w") (auto simp: api_deals_def)
  from assms api_deals_eq [OF loc t] q loc t show ?thesis by simp
qed

lemma pushed_provenance:
  assumes "d \<in> set (pushed w token loc (finish_order w batchSize DEAL_CATEGORIES))"
  shows "\<exists>c body p. c \<in> set DEAL_CATEGORIES \<and> catalog w token loc c = Body (Some body)
     \<and> p \<in> set body \<and> promo_filter p \<and> deal_of c p = Inr d"
proof -
  have b: "0 < batchSize" by (simp add: batchSize_def)
  from assms obtain c where c: "c \<in> set DEAL_CATEGORIES"
    and d: "d \<in> set (category_callback (catalog w token loc c) c)"
    by (auto simp: set_pushed set_finish_order [OF b])
  from callback_provenance [OF d] c show ?thesis by blast
qed



section \<open>The deal items of the answer\<close>

text \<open>
  C1 (amended). Every deal item of the answer comes from a product record of a successful
  search that has a promotional price greater than zero and a regular price. When the
  promotional price of that record is not above its regular price, \<open>pctOff\<close> is an
  integer from 0 to 100 and \<open>salePrice\<close> is at most \<open>regularPrice\<close>. The two can be
  equal for different prices, which \<open>toFixed(2)\<close> may write alike. Nothing is promised
  when the promotional price is above the regular price: such records are not filtered
  out.
\<close>

theorem C1_deal_item_bounds:
  assumes "api_deals w q = Some (Json ds)" and "d \<in> set ds"
  shows "\<exists>token loc c body p item rest pr r pm.
       q = Some loc \<and> getAppToken w = Inr token \<and> c \<in> set DEAL_CATEGORIES
     \<and> catalog w token loc c = Body (Some body) \<and> p \<in> set body \<and> deal_of c p = Inr d
     \<and> items p = Some (item # rest) \<and> price item = Some pr
     \<and> regular pr = Some r \<and> promo pr = Some pm \<and> 0 < pm
     \<and> (pm \<le> r \<longrightarrow>
           (\<exists>n::int. pctOff d = Fin (of_int n) \<and> 0 \<le> n \<and> n \<le> 100)
         \<and> salePrice d \<le> regularPrice d)"
proof -
  from api_deals_JsonD [OF assms(1)] obtain token loc where q: "q = Some loc"
    and t: "getAppToken w = Inr token"
    and ds: "ds = unique (pushed w token loc (finish_order w batchSize DEAL_CATEGORIES))"
    by blast
  from assms(2) ds have "d \<in> set (pushed w token loc (finish_order w batchSize DEAL_CATEGORIES))"
    using set_unique by blast
  from pushed_provenance [OF this] obtain c body p where c: "c \<in> set DEAL_CATEGORIES"
    and body: "catalog w token loc c = Body (Some body)" and p: "p \<in> set body"
    and f: "promo_filter p" and d: "deal_of c p = Inr d"
    by blast
  from deal_of_InrD [OF d] obtain item rest pr r pm where
    h: "items p = Some (item # rest)" "price item = Some pr" "regular pr = Some r"
       "promo pr = Some pm"
    and fields: "pctOff d = pct (Fin (double r)) (Fin (double pm))"
       "salePrice d = toFixed2 (double pm)" "regularPrice d = toFixed2 (double r)"
    by auto
  from f h have pos: "0 < pm"
    by (simp add: promo_filter_iff promo_of_def)
  have "pm \<le> r \<longrightarrow>
           (\<exists>n::int. pctOff d = Fin (of_int n) \<and> 0 \<le> n \<and> n \<le> 100)
         \<and> salePrice d \<le> regularPrice d"
  proof (intro impI conjI)
    assume le: "pm \<le> r"
    from pct_bounds [OF pos le] fields(1)
    show "\<exists>n::int. pctOff d = Fin (of_int n) \<and> 0 \<le> n \<and> n \<le> 100" by simp
    from pos have "0 \<le> double pm" by (intro double_nonneg) simp
    moreover from le have "double pm \<le> double r" by (rule double_mono)
    ultimately show "salePrice d \<le> regularPrice d"
      unfolding fields by (rule toFixed2_mono)
  qed
  with q t c body p d h pos show ?thesis by blast
qed

lemma marked_up_promo: "promo_filter marked_up"
  by (simp add: promo_filter_def promo_of_def marked_up_def double_pos_iff)

lemma deal_of_marked_up: "deal_of ''chicken'' marked_up = Inr marked_up_deal"
  by code_simp

lemma yogurt_promo: "promo_filter yogurt"
  by (simp add: promo_filter_def promo_of_def yogurt_def double_pos_iff)

lemma deal_of_yogurt: "deal_of ''yogurt'' yogurt = Inr yogurt_deal"
  by code_simp

text \<open>
  A record at 5.00 instead of 4.00 becomes a deal item with a sale price above the
  regular price and a negative \<open>pctOff\<close>; a record at 1.245 instead of 1.255 becomes a
  deal item whose two prices are both written 1.25.
\<close>

theorem C1_counterexample:
  "api_deals (single_result ''chicken'' [marked_up]) (Some ''01400943'') = Some (Json [marked_up_deal])
   \<and> \<not> salePrice marked_up_deal < regularPrice marked_up_deal
   \<and> pctOff marked_up_deal = Fin (- 25) \<and> \<not> js_ge (pctOff marked_up_deal) (Fin 0)
   \<and> api_deals (single_result ''yogurt'' [yogurt]) (Some ''01400943'') = Some (Json [yogurt_deal])
   \<and> promo_of yogurt = Some (249 / 200)
   \<and> \<not> salePrice yogurt_deal < regularPrice yogurt_deal"
proof -
  have "category_callback (Body (Some [marked_up])) ''chicken'' = [marked_up_deal]"
    by (simp add: category_callback_def products_def marked_up_promo deal_of_marked_up)
  then have "pushed (single_result ''chicken'' [marked_up]) ''token'' ''01400943'' DEAL_CATEGORIES
      = [marked_up_deal]"
    by (simp add: pushed_def single_result_def DEAL_CATEGORIES_def)
  then have 1: "api_deals (single_result ''chicken'' [marked_up]) (Some ''01400943'')
      = Some (Json [marked_up_deal])"
    by (simp add: single_result_deals unique_single)
  have "category_callback (Body (Some [yogurt])) ''yogurt'' = [yogurt_deal]"
    by (simp add: category_callback_def products_def yogurt_promo deal_of_yogurt)
  then have "pushed (single_result ''yogurt'' [yogurt]) ''token'' ''01400943'' DEAL_CATEGORIES
      = [yogurt_deal]"
    by (simp add: pushed_def single_result_def DEAL_CATEGORIES_def)
  then have 2: "api_deals (single_result ''yogurt'' [yogurt]) (Some ''01400943'')
      = Some (Json [yogurt_deal])"
    by (simp add: single_result_deals unique_single)
  have 3: "promo_of yogurt = Some (249 / 200)"
    by (simp add: promo_of_def yogurt_def)
  from 1 2 3 show ?thesis
    by (simp add: marked_up_deal_def yogurt_deal_def)
qed

theorem C1_deal_item_bounds_witness:
  "api_deals (single_result ''dairy'' [milk]) (Some ''01400943'') = Some (Json [milk_deal])
   \<and> milk_deal \<in> set [milk_deal]
   \<and> (\<exists>token loc c body p item rest pr r pm.
       Some ''01400943'' = Some loc \<and> getAppToken (single_result ''dairy'' [milk]) = Inr token
     \<and> c \<in> set DEAL_CATEGORIES
     \<and> catalog (single_result ''dairy'' [milk]) token loc c = Body (Some body) \<and> p \<in> set body
     \<and> deal_of c p = Inr milk_deal
     \<and> items p = Some (item # rest) \<and> price item = Some pr
     \<and> regular pr = Some r \<and> promo pr = Some pm \<and> 0 < pm
     \<and> (pm \<le> r \<longrightarrow>
           (\<exists>n::int. pctOff milk_deal = Fin (of_int n) \<and> 0 \<le> n \<and> n \<le> 100)
         \<and> salePrice milk_deal \<le> regularPrice milk_deal))
   \<and> pctOff milk_deal = Fin 25 \<and> salePrice milk_deal = 300 \<and> regularPrice milk_deal = 400"
proof -
  have 2: "milk_deal \<in> set [milk_deal]"
    by simp
  have 3: "pctOff milk_deal = Fin 25 \<and> salePrice milk_deal = 300 \<and> regularPrice milk_deal = 400"
    by (simp add: milk_deal_def)
  from C1_deal_item_bounds [OF milk_deals 2] milk_deals 2 3 show ?thesis by blast
qed

section \<open>Ranking\<close>

lemma js_gt_sub:
  assumes "a \<noteq> NaN" and "b \<noteq> NaN"
  shows "js_gt (js_sub b a) (Fin 0) \<longleftrightarrow> js_gt b a"
  using assms by (cases a; cases b) (auto simp: double_pos_iff)

lemma not_js_gt:
  assumes "a \<noteq> NaN" and "b \<noteq> NaN"
  shows "\<not> js_gt b a \<longleftrightarrow> js_ge a b"
  using assms by (cases a; cases b) auto

lemma js_gt_imp_ge: "js_gt a b \<Longrightarrow> js_ge a b"
  by (cases a; cases b) auto

lemma js_ge_trans: "js_ge a b \<Longrightarrow> js_ge b c \<Longrightarrow> js_ge a c"
  by (cases a; cases b; cases c) auto

lemma js_sub_same: "\<not> js_gt (js_sub a a) (Fin 0)"
  by (cases a) (auto simp: double_def)

lemma set_insert_cmp: "set (insert_cmp cmp x xs) = insert x (set xs)"
  by (metis mset_insert_cmp set_mset_add_mset_insert set_mset_mset)

lemma sorted_insert_cmp:
  assumes "\<forall>y \<in> set (x # xs). pctOff y \<noteq> NaN"
    and "sorted_wrt (\<lambda>a b. js_ge (pctOff a) (pctOff b)) xs"
  shows "sorted_wrt (\<lambda>a b. js_ge (pctOff a) (pctOff b)) (insert_cmp by_pctOff x xs)"
  using assms
proof (induction xs)
  case Nil
  show ?case by simp
next
  case (Cons y ys)
  from Cons.prems have nan: "pctOff x \<noteq> NaN" "pctOff y \<noteq> NaN" by simp_all
  show ?case
  proof (cases "js_gt (by_pctOff x y) (Fin 0)")
    case True
    then have "js_ge (pctOff y) (pctOff x)"
      using nan by (simp add: by_pctOff_def js_gt_sub js_gt_imp_ge)
    moreover have "sorted_wrt (\<lambda>a b. js_ge (pctOff a) (pctOff b)) (insert_cmp by_pctOff x ys)"
      using Cons by simp
    ultimately show ?thesis
      using True Cons.prems by (simp add: set_insert_cmp)
  next
    case False
    then have xy: "js_ge (pctOff x) (pctOff y)"
      using nan by (simp add: by_pctOff_def js_gt_sub not_js_gt)
    then have "\<forall>z \<in> set ys. js_ge (pctOff x) (pctOff z)"
      using Cons.prems(2) by (auto intro: js_ge_trans)
    with xy False Cons.prems show ?thesis by simp
  qed
qed

lemma sorted_Array_sort:
  assumes "\<forall>y \<in> set xs. pctOff y \<noteq> NaN"
  shows "sorted_wrt (\<lambda>a b. js_ge (pctOff a) (pctOff b)) (Array_sort by_pctOff xs)"
  using assms
proof (induction xs)
  case Nil
  show ?case by (simp add: Array_sort_def)
next
  case (Cons x xs)
  then have "sorted_wrt (\<lambda>a b. js_ge (pctOff a) (pctOff b)) (Array_sort by_pctOff xs)"
    by simp
  moreover have "\<forall>y \<in> set (x # Array_sort by_pctOff xs). pctOff y \<noteq> NaN"
    using Cons.prems by (simp add: set_Array_sort)
  ultimately have "sorted_wrt (\<lambda>a b. js_ge (pctOff a) (pctOff b))
      (insert_cmp by_pctOff x (Array_sort by_pctOff xs))"
    by (intro sorted_insert_cmp)
  then show ?case by (simp add: Array_sort_def)
qed

lemma filter_insert_cmp:
  "filter (\<lambda>d. pctOff d = v) (insert_cmp by_pctOff x xs) = filter (\<lambda>d. pctOff d = v) (x # xs)"
proof (induction xs)
  case Nil
  show ?case by simp
next
  case (Cons y ys)
  show ?case
  proof (cases "js_gt (by_pctOff x y) (Fin 0)")
    case True
    then have "pctOff y \<noteq> pctOff x"
      using js_sub_same [of "pctOff x"] by (auto simp: by_pctOff_def)
    with True Cons show ?thesis by auto
  next
    case False
    then show ?thesis by simp
  qed
qed

lemma Array_sort_stable:
  "filter (\<lambda>d. pctOff d = v) (Array_sort by_pctOff xs) = filter (\<lambda>d. pctOff d = v) xs"
proof (induction xs)
  case Nil
  show ?case by (simp add: Array_sort_def)
next
  case (Cons x xs)
  have "filter (\<lambda>d. pctOff d = v) (Array_sort by_pctOff (x # xs))
      = filter (\<lambda>d. pctOff d = v) (x # Array_sort by_pctOff xs)"
    by (simp add: Array_sort_def filter_insert_cmp)
  with Cons show ?case by simp
qed

lemma sorted_wrt_take: "sorted_wrt R xs \<Longrightarrow> sorted_wrt R (take n xs)"
  by (metis append_take_drop_id sorted_wrt_append)

lemma pushed_not_NaN:
  assumes "d \<in> set (pushed w token loc (finish_order w batchSize DEAL_CATEGORIES))"
  shows "pctOff d \<noteq> NaN"
proof -
  from pushed_provenance [OF assms] obtain c p where f: "promo_filter p"
    and d: "deal_of c p = Inr d"
    by blast
  from deal_of_InrD [OF d] obtain item rest pr r pm where
    h: "items p = Some (item # rest)" "price item = Some pr" "promo pr = Some pm"
    and pct: "pctOff d = pct (Fin (double r)) (Fin (double pm))"
    by auto
  from f h have "0 < pm"
    by (simp add: promo_filter_iff promo_of_def)
  with pct show ?thesis by (simp add: pct_not_NaN)
qed

text \<open>
  C2. The deals of an answer are in non-increasing order of \<open>pctOff\<close> and there are at
  most 200 of them. For each value of \<open>pctOff\<close>, the deals of the answer with that value
  are, in the same order, the first ones with that value in the deduplicated sequence
  that was sorted: ties keep their input order.
\<close>

theorem C2_sorted_stable_capped:
  assumes "api_deals w q = Some (Json ds)"
  shows "sorted_wrt (\<lambda>a b. js_ge (pctOff a) (pctOff b)) ds \<and> length ds \<le> 200
     \<and> (\<exists>token loc. q = Some loc \<and> getAppToken w = Inr token
          \<and> (\<forall>v. prefix (filter (\<lambda>d. pctOff d = v) ds)
                 (filter (\<lambda>d. pctOff d = v)
                    (filter_seen {} (pushed w token loc (finish_order w batchSize DEAL_CATEGORIES))))))"
proof -
  from api_deals_JsonD [OF assms] obtain token loc where q: "q = Some loc"
    and t: "getAppToken w = Inr token"
    and ds: "ds = unique (pushed w token loc (finish_order w batchSize DEAL_CATEGORIES))"
    by blast
  let ?ps = "pushed w token loc (finish_order w batchSize DEAL_CATEGORIES)"
  let ?sorted = "Array_sort by_pctOff (filter_seen {} ?ps)"
  have take: "ds = take 200 ?sorted"
    by (simp add: ds unique_def slice_0)
  have "\<forall>y \<in> set (filter_seen {} ?ps). pctOff y \<noteq> NaN"
    using set_filter_seen [of "{}" ?ps] pushed_not_NaN by blast
  then have "sorted_wrt (\<lambda>a b. js_ge (pctOff a) (pctOff b)) ?sorted"
    by (rule sorted_Array_sort)
  then have 1: "sorted_wrt (\<lambda>a b. js_ge (pctOff a) (pctOff b)) ds"
    unfolding take by (rule sorted_wrt_take)
  have 2: "length ds \<le> 200"
    by (simp add: take)
  have 3: "prefix (filter (\<lambda>d. pctOff d = v) ds)
      (filter (\<lambda>d. pctOff d = v) (filter_seen {} ?ps))" for v
  proof -
    have "prefix (filter (\<lambda>d. pctOff d = v) ds) (filter (\<lambda>d. pctOff d = v) ?sorted)"
      unfolding take by (intro filter_mono_prefix take_is_prefix)
    then show ?thesis by (simp only: Array_sort_stable)
  qed
  from 1 2 3 q t show ?thesis by blast
qed

lemma eggs_milk_deals:
  "api_deals (single_result ''dairy'' [eggs, milk, milk]) (Some ''01400943'')
     = Some (Json [milk_deal, eggs_deal])"
proof -
  have "category_callback (Body (Some [eggs, milk, milk])) ''dairy''
      = [eggs_deal, milk_deal, milk_deal]"
    by (simp add: category_callback_def products_def milk_promo deal_of_milk eggs_promo
        deal_of_eggs)
  then have "pushed (single_result ''dairy'' [eggs, milk, milk]) ''token'' ''01400943'' DEAL_CATEGORIES
      = [eggs_deal, milk_deal, milk_deal]"
    by (simp add: pushed_def single_result_def DEAL_CATEGORIES_def)
  moreover have "unique [eggs_deal, milk_deal, milk_deal] = [milk_deal, eggs_deal]"
    by (simp add: unique_def slice_0 Array_sort_def by_pctOff_def eggs_deal_def milk_deal_def
        double_pos_iff)
  ultimately show ?thesis
    by (simp add: single_result_deals)
qed

theorem C2_sorted_stable_capped_witness:
  "api_deals (single_result ''dairy'' [eggs, milk, milk]) (Some ''01400943'')
     = Some (Json [milk_deal, eggs_deal])
   \<and> sorted_wrt (\<lambda>a b. js_ge (pctOff a) (pctOff b)) [milk_deal, eggs_deal]
   \<and> length [milk_deal, eggs_deal] \<le> 200
   \<and> (\<exists>token loc. Some ''01400943'' = Some loc
          \<and> getAppToken (single_result ''dairy'' [eggs, milk, milk]) = Inr token
          \<and> (\<forall>v. prefix (filter (\<lambda>d. pctOff d = v) [milk_deal, eggs_deal])
                 (filter (\<lambda>d. pctOff d = v)
                    (filter_seen {} (pushed (single_result ''dairy'' [eggs, milk, milk]) token loc
                       (finish_order (single_result ''dairy'' [eggs, milk, milk]) batchSize
                          DEAL_CATEGORIES))))))"
  using C2_sorted_stable_capped [OF eggs_milk_deals] eggs_milk_deals by blast


section \<open>First occurrence wins\<close>

lemma card_ids_filter_seen: "length (filter_seen {} ps) = card (d_id ` set ps)"
proof -
  have "length (filter_seen {} ps) = length (map d_id (filter_seen {} ps))" by simp
  also have "\<dots> = card (set (map d_id (filter_seen {} ps)))"
    by (rule distinct_card [symmetric]) (rule distinct_filter_seen)
  also have "\<dots> = card (d_id ` set ps)"
    using ids_filter_seen [of "{}" ps] by simp
  finally show ?thesis .
qed

lemma distinct_ids_unique: "distinct (map d_id (unique ps))"
proof -
  have "mset (map d_id (Array_sort by_pctOff (filter_seen {} ps))) = mset (map d_id (filter_seen {} ps))"
    by (simp add: mset_Array_sort)
  then have "distinct (map d_id (Array_sort by_pctOff (filter_seen {} ps)))"
    using distinct_filter_seen [of "{}" ps] by (metis mset_eq_imp_distinct_iff)
  then have "distinct (take 200 (map d_id (Array_sort by_pctOff (filter_seen {} ps))))"
    by (rule distinct_take)
  then show ?thesis
    by (simp only: unique_def slice_0 take_map)
qed

text \<open>
  C3 (amended). No two deals of the aggregate share an identifier, and each deal of the
  aggregate is the first record of the input that has its identifier. When the input has
  at most 200 different identifiers, every identifier of the input has its deal in the
  aggregate. With more identifiers the cap leaves some of them without a deal.
\<close>

theorem C3_first_occurrence_wins:
  "distinct (map d_id (unique ps))
   \<and> (\<forall>d \<in> set (unique ps). find (\<lambda>e. d_id e = d_id d) ps = Some d)
   \<and> (card (d_id ` set ps) \<le> 200 \<longrightarrow> d_id ` set (unique ps) = d_id ` set ps)"
proof -
  have sub: "set (unique ps) \<subseteq> set (filter_seen {} ps)"
    by (simp add: unique_def slice_0 set_take_subset flip: set_Array_sort [of by_pctOff "filter_seen {} ps"])
  then have 2: "\<forall>d \<in> set (unique ps). find (\<lambda>e. d_id e = d_id d) ps = Some d"
    using filter_seen_first by blast
  have 3: "d_id ` set (unique ps) = d_id ` set ps" if "card (d_id ` set ps) \<le> 200"
  proof -
    from that have "length (Array_sort by_pctOff (filter_seen {} ps)) \<le> 200"
      by (simp add: length_Array_sort card_ids_filter_seen)
    then have "unique ps = Array_sort by_pctOff (filter_seen {} ps)"
      by (simp add: unique_def slice_0)
    then show ?thesis
      using ids_filter_seen [of "{}" ps] by (simp add: set_Array_sort)
  qed
  from distinct_ids_unique 2 3 show ?thesis by blast
qed

theorem C3_first_occurrence_wins_witness:
  "unique [eggs_deal, milk_deal, milk_deal\<lparr>d_category := ''beverages''\<rparr>]
       = [milk_deal, eggs_deal]
   \<and> distinct (map d_id (unique [eggs_deal, milk_deal, milk_deal\<lparr>d_category := ''beverages''\<rparr>]))
   \<and> find (\<lambda>e. d_id e = d_id milk_deal)
         [eggs_deal, milk_deal, milk_deal\<lparr>d_category := ''beverages''\<rparr>] = Some milk_deal
   \<and> find (\<lambda>e. d_id e = d_id eggs_deal)
         [eggs_deal, milk_deal, milk_deal\<lparr>d_category := ''beverages''\<rparr>] = Some eggs_deal
   \<and> card (d_id ` set [eggs_deal, milk_deal, milk_deal\<lparr>d_category := ''beverages''\<rparr>]) \<le> 200
   \<and> d_id ` set (unique [eggs_deal, milk_deal, milk_deal\<lparr>d_category := ''beverages''\<rparr>])
       = d_id ` set [eggs_deal, milk_deal, milk_deal\<lparr>d_category := ''beverages''\<rparr>]"
proof -
  let ?ps = "[eggs_deal, milk_deal, milk_deal\<lparr>d_category := ''beverages''\<rparr>]"
  have c: "card (d_id ` set ?ps) \<le> 200"
    by (simp add: eggs_deal_def milk_deal_def)
  have u: "unique ?ps = [milk_deal, eggs_deal]"
    by (simp add: unique_def slice_0 Array_sort_def by_pctOff_def eggs_deal_def milk_deal_def
        double_pos_iff)
  then have m: "milk_deal \<in> set (unique ?ps)" and e: "eggs_deal \<in> set (unique ?ps)"
    by simp_all
  from C3_first_occurrence_wins [of ?ps] c u m e
  show ?thesis by blast
qed

lemma filter_seen_append:
  "filter_seen S (xs @ ys) = filter_seen S xs @ filter_seen (S \<union> d_id ` set xs) ys"
proof (induction S xs rule: filter_seen.induct)
  case (1 seen)
  show ?case by simp
next
  case (2 seen p ps)
  show ?case
  proof (cases "d_id p \<in> seen")
    case True
    then have "seen \<union> d_id ` set (p # ps) = seen \<union> d_id ` set ps" by auto
    with True 2 show ?thesis by simp
  next
    case False
    have "seen \<union> d_id ` set (p # ps) = insert (d_id p) seen \<union> d_id ` set ps" by auto
    with False 2 show ?thesis by simp
  qed
qed

lemma filter_seen_distinct:
  "distinct (map d_id xs) \<Longrightarrow> d_id ` set xs \<inter> S = {} \<Longrightarrow> filter_seen S xs = xs"
proof (induction S xs rule: filter_seen.induct)
  case (1 seen)
  show ?case by simp
next
  case (2 seen p ps)
  from "2.prems" have "d_id p \<notin> seen" and "distinct (map d_id ps)"
    and "d_id ` set ps \<inter> insert (d_id p) seen = {}"
    by auto
  with "2.IH"(2) show ?case by simp
qed

lemma Array_sort_sorted:
  "sorted_wrt (\<lambda>a b. \<not> js_gt (cmp a b) (Fin 0)) xs \<Longrightarrow> Array_sort cmp xs = xs"
proof (induction xs)
  case Nil
  show ?case by (simp add: Array_sort_def)
next
  case (Cons x xs)
  then have "Array_sort cmp xs = xs" by simp
  then have "Array_sort cmp (x # xs) = insert_cmp cmp x xs"
    by (simp add: Array_sort_def)
  with Cons.prems show ?case by (cases xs) simp_all
qed

lemma numbered_id_inj:
  assumes "n < 200" and "m < 200" and "d_id (numbered n) = d_id (numbered m)"
  shows "n = m"
proof -
  have inj: "char_of (48 + a) = (char_of (48 + b) :: char) \<Longrightarrow> a = b" if "a < 10" "b < 10" for a b :: nat
    using that inj_on_char_of_nat by (auto dest!: inj_onD [where x = "48 + a" and y = "48 + b"])
  from assms(3) have "char_of (48 + n div 100) = (char_of (48 + m div 100) :: char)"
    and "char_of (48 + n div 10 mod 10) = (char_of (48 + m div 10 mod 10) :: char)"
    and "char_of (48 + n mod 10) = (char_of (48 + m mod 10) :: char)"
    by (simp_all add: numbered_def)
  with assms(1,2) have "n div 100 = m div 100" "n div 10 mod 10 = m div 10 mod 10"
      "n mod 10 = m mod 10"
    by (auto intro!: inj)
  then have "n div 10 div 10 = m div 10 div 10" "n div 10 mod 10 = m div 10 mod 10"
      "n mod 10 = m mod 10"
    by (simp_all add: div_mult2_eq [symmetric])
  then have "n div 10 = m div 10" "n mod 10 = m mod 10"
    by (metis div_mult_mod_eq)+
  then show ?thesis
    by (metis div_mult_mod_eq)
qed

lemma unique_crowd: "unique crowd = map numbered [0..<200]"
proof -
  let ?xs = "map numbered [0..<200]"
  have "inj_on (d_id \<circ> numbered) (set [0..<200])"
    by (rule inj_onI) (simp add: numbered_id_inj)
  then have d: "distinct (map d_id ?xs)"
    by (simp add: distinct_map)
  have late: "d_id straggler \<notin> d_id ` set ?xs"
    by (auto simp: straggler_def numbered_def)
  from d have "filter_seen {} ?xs = ?xs"
    by (rule filter_seen_distinct) simp
  with late have f: "filter_seen {} crowd = ?xs @ [straggler]"
    by (simp add: crowd_def filter_seen_append)
  have "sorted_wrt (\<lambda>a b. \<not> js_gt (by_pctOff a b) (Fin 0)) (?xs @ [straggler])"
    by (simp add: sorted_wrt_append sorted_wrt_map by_pctOff_def numbered_def straggler_def
        sorted_wrt_true double_pos_iff)
  then have "Array_sort by_pctOff (?xs @ [straggler]) = ?xs @ [straggler]"
    by (rule Array_sort_sorted)
  with f show ?thesis
    by (simp add: unique_def slice_0)
qed

theorem C3_counterexample:
  "count_list (map d_id crowd) (d_id straggler) = 2
   \<and> count_list (map d_id (unique crowd)) (d_id straggler) = 0"
proof -
  have late: "d_id straggler \<notin> set (map d_id (map numbered [0..<200]))"
    by (auto simp: straggler_def numbered_def)
  then have 0: "count_list (map d_id (map numbered [0..<200])) (d_id straggler) = 0"
    by (simp only: count_list_0_iff not_False_eq_True)
  have "map d_id crowd = map d_id (map numbered [0..<200]) @ [d_id straggler, d_id straggler]"
    by (simp only: crowd_def map_append list.map)
  then have "count_list (map d_id crowd) (d_id straggler)
      = count_list (map d_id (map numbered [0..<200])) (d_id straggler) + 2"
    by (simp only: count_list_append) simp
  with 0 show ?thesis
    by (simp only: unique_crowd) simp
qed


section \<open>Sale items and coupons of a recipe\<close>

lemma find_SomeD: "find P xs = Some x \<Longrightarrow> x \<in> set xs \<and> P x"
  by (induction xs) (auto split: if_splits)

lemma find_append_case:
  "find P (xs @ ys) = (case find P xs of Some x \<Rightarrow> Some x | None \<Rightarrow> find P ys)"
  by (induction xs) simp_all

lemma foldl_own:
  "own (foldl (\<lambda>obj ing. set_property obj (f ing) ing) obj ings) k
     = (if k = ''__proto__'' then own obj k
        else case find (\<lambda>i. f i = k) (rev ings) of Some d \<Rightarrow> Some d | None \<Rightarrow> own obj k)"
proof (induction ings arbitrary: obj)
  case Nil
  show ?case by simp
next
  case (Cons i ings)
  have "own (foldl (\<lambda>obj ing. set_property obj (f ing) ing) obj (i # ings)) k
      = own (foldl (\<lambda>obj ing. set_property obj (f ing) ing) (set_property obj (f i) i) ings) k"
    by (simp only: foldl_Cons)
  also have "\<dots> = (if k = ''__proto__'' then own (set_property obj (f i) i) k
        else case find (\<lambda>i. f i = k) (rev ings) of Some d \<Rightarrow> Some d
             | None \<Rightarrow> own (set_property obj (f i) i) k)"
    by (rule Cons.IH)
  also have "\<dots> = (if k = ''__proto__'' then own obj k
        else case find (\<lambda>i. f i = k) (rev (i # ings)) of Some d \<Rightarrow> Some d | None \<Rightarrow> own obj k)"
    by (auto simp: find_append_case set_property_def split: option.splits)
  finally show ?case .
qed

lemma foldl_proto:
  "proto (foldl (\<lambda>obj ing. set_property obj (f ing) ing) obj ings)
     = (case find (\<lambda>i. f i = ''__proto__'') (rev ings) of Some d \<Rightarrow> Some d | None \<Rightarrow> proto obj)"
proof (induction ings arbitrary: obj)
  case Nil
  show ?case by simp
next
  case (Cons i ings)
  have "proto (foldl (\<lambda>obj ing. set_property obj (f ing) ing) obj (i # ings))
      = proto (foldl (\<lambda>obj ing. set_property obj (f ing) ing) (set_property obj (f i) i) ings)"
    by (simp only: foldl_Cons)
  also have "\<dots> = (case find (\<lambda>i. f i = ''__proto__'') (rev ings) of Some d \<Rightarrow> Some d
        | None \<Rightarrow> proto (set_property obj (f i) i))"
    by (rule Cons.IH)
  also have "\<dots> = (case find (\<lambda>i. f i = ''__proto__'') (rev (i # ings)) of Some d \<Rightarrow> Some d
        | None \<Rightarrow> proto obj)"
    by (auto simp: find_append_case set_property_def split: option.splits)
  finally show ?case .
qed

lemma ingredientLookup_own:
  "own (ingredientLookup toLowerCase ings) k
     = (if k = ''__proto__'' then None
        else find (\<lambda>i. first_token (toLowerCase (g_name i)) = k) (rev ings))"
  by (simp add: ingredientLookup_def foldl_own split: option.splits)

lemma ingredientLookup_proto:
  "proto (ingredientLookup toLowerCase ings)
     = find (\<lambda>i. first_token (toLowerCase (g_name i)) = ''__proto__'') (rev ings)"
  by (simp add: ingredientLookup_def foldl_proto split: option.splits)

lemma get_property_plain:
  assumes "\<forall>i \<in> set ings. first_token (toLowerCase (g_name i)) \<noteq> ''__proto__''"
    and "k \<notin> set (''__proto__'' # Object_prototype_functions)"
  shows "get_property (ingredientLookup toLowerCase ings) k
     = map_option Item (find (\<lambda>i. first_token (toLowerCase (g_name i)) = k) (rev ings))"
proof -
  from assms(1) have "proto (ingredientLookup toLowerCase ings) = None"
    by (simp add: ingredientLookup_proto find_None_iff)
  with assms(2) show ?thesis
    by (simp add: get_property_def ingredientLookup_own split: option.splits)
qed

lemma first_token_sublist: "sublist (first_token s) s"
proof -
  have "prefix (takeWhile (\<lambda>c. c \<noteq> CHR '' '') s) s"
    by (metis prefixI takeWhile_dropWhile_id)
  then show ?thesis
    by (simp add: first_token_def prefix_imp_sublist)
qed

lemma find_deal_plain:
  assumes "\<forall>i \<in> set ings. first_token (toLowerCase (g_name i)) \<noteq> ''__proto__''"
    and "first_token (toLowerCase name) \<notin> set (''__proto__'' # Object_prototype_functions)"
  shows "find_deal toLowerCase ings name =
     map_option Item
       (case find (\<lambda>i. first_token (toLowerCase (g_name i)) = first_token (toLowerCase name))
               (rev ings) of
          Some d \<Rightarrow> Some d
        | None \<Rightarrow> find (\<lambda>i. sublist (first_token (toLowerCase name)) (toLowerCase (g_name i)))
                    ings)"
  unfolding find_deal_def Let_def js_includes_def
  by (simp add: get_property_plain [OF assms] split: option.splits)

lemma find_deal_found:
  assumes "\<exists>i \<in> set ings. sublist (first_token (toLowerCase name)) (toLowerCase (g_name i))"
  shows "find_deal toLowerCase ings name \<noteq> None"
proof -
  from assms have "find (\<lambda>i. sublist (first_token (toLowerCase name)) (toLowerCase (g_name i)))
      ings \<noteq> None"
    by (auto simp: find_None_iff)
  then show ?thesis
    unfolding find_deal_def Let_def js_includes_def
    by (auto split: option.splits)
qed

lemma find_deal_plain_iff:
  assumes "\<forall>i \<in> set ings. first_token (toLowerCase (g_name i)) \<noteq> ''__proto__''"
    and "first_token (toLowerCase name) \<notin> set (''__proto__'' # Object_prototype_functions)"
  shows "find_deal toLowerCase ings name \<noteq> None
     \<longleftrightarrow> (\<exists>i \<in> set ings. sublist (first_token (toLowerCase name)) (toLowerCase (g_name i)))"
proof
  assume "\<exists>i \<in> set ings. sublist (first_token (toLowerCase name)) (toLowerCase (g_name i))"
  then show "find_deal toLowerCase ings name \<noteq> None" by (rule find_deal_found)
next
  let ?k = "first_token (toLowerCase name)"
  assume some: "find_deal toLowerCase ings name \<noteq> None"
  show "\<exists>i \<in> set ings. sublist ?k (toLowerCase (g_name i))"
  proof (cases "find (\<lambda>i. first_token (toLowerCase (g_name i)) = ?k) (rev ings)")
    case None
    with some obtain d where "find (\<lambda>i. sublist ?k (toLowerCase (g_name i))) ings = Some d"
      by (auto simp: find_deal_plain [OF assms])
    then show ?thesis by (blast dest: find_SomeD)
  next
    case (Some d)
    then have "d \<in> set (rev ings)" and "first_token (toLowerCase (g_name d)) = ?k"
      by (blast dest: find_SomeD)+
    then have "d \<in> set ings" and "sublist ?k (toLowerCase (g_name d))"
      using first_token_sublist [of "toLowerCase (g_name d)"] by simp_all
    then show ?thesis by blast
  qed
qed

lemma foldl_tally:
  "foldl (tally_step toLowerCase ings) t names =
     \<lparr>t_usedSaleItems = t_usedSaleItems t
        @ map item_of (List.map_filter (find_deal toLowerCase ings) names),
      t_totalSavings = foldl (\<lambda>a b. double (a + b)) (t_totalSavings t)
        (map (\<lambda>u. parseFloat_or_0 (u_savings u))
           (map item_of (List.map_filter (find_deal toLowerCase ings) names))),
      t_estimatedCost = foldl (\<lambda>a b. double (a + b)) (t_estimatedCost t)
        (map (\<lambda>u. parseFloat_or_0 (u_salePrice u))
           (map item_of (List.map_filter (find_deal toLowerCase ings) names)))\<rparr>"
proof (induction names arbitrary: t)
  case Nil
  show ?case by (simp add: List.map_filter_simps)
next
  case (Cons name names)
  show ?case
  proof (cases "find_deal toLowerCase ings name")
    case None
    then have "tally_step toLowerCase ings t name = t" by (simp add: tally_step_def)
    with None show ?thesis by (simp add: Cons.IH List.map_filter_simps)
  next
    case (Some deal)
    then have "tally_step toLowerCase ings t name =
        \<lparr>t_usedSaleItems = t_usedSaleItems t @ [item_of deal],
         t_totalSavings = double (t_totalSavings t + parseFloat_or_0 (u_savings (item_of deal))),
         t_estimatedCost =
           double (t_estimatedCost t + parseFloat_or_0 (u_salePrice (item_of deal)))\<rparr>"
      by (simp add: tally_step_def)
    with Some show ?thesis by (simp add: Cons.IH List.map_filter_simps)
  qed
qed

lemma coupon_matches_iff:
  "coupon_matches toLowerCase used c
     \<longleftrightarrow> (\<exists>name \<in> set used. sublist (first_token (toLowerCase name))
            (toLowerCase (c_description c @ '' '' @ c_brand c)))"
  by (simp add: coupon_matches_def Let_def list_ex_iff js_includes_def)

lemma enrich_fields:
  "usedSaleItems (enrich toLowerCase ings coupons boostDeals recipe)
     = map item_of (List.map_filter (find_deal toLowerCase ings) (or_nil (usedIngredients recipe)))"
  "totalSavings (enrich toLowerCase ings coupons boostDeals recipe)
     = round2 (js_sum (map (\<lambda>u. parseFloat_or_0 (u_savings u))
         (map item_of
            (List.map_filter (find_deal toLowerCase ings) (or_nil (usedIngredients recipe))))))"
  "couponsToClip (enrich toLowerCase ings coupons boostDeals recipe)
     = map clip_of (filter (coupon_matches toLowerCase (or_nil (usedIngredients recipe)))
         (or_nil coupons @ or_nil boostDeals))"
  by (simp_all add: enrich_def Let_def foldl_tally js_sum_def)

text \<open>
  C4 (amended). For every recipe, each of its used ingredients is attributed at most one
  value: what the lookup object has under the lower-case first token of the ingredient
  name, or else the first sale item whose lower-case name contains that token. Whenever
  some sale item's lower-case name contains the token, a value is attributed. When the
  token is not the name of a property that a plain object inherits, and no sale item has
  the token \<open>__proto__\<close>, the converse holds and the value is a sale item: the last sale
  item whose lower-case first token is the token, or else the first sale item whose
  lower-case name contains it. \<open>usedSaleItems\<close> lists what is attributed to each used
  ingredient, in order, so an item attributed to several ingredients is listed, and
  counted, once for each; \<open>totalSavings\<close> is the sum of the savings over that list, added
  from left to right as the source adds them, and rounded to two decimals. A coupon is
  kept exactly when the token of some used ingredient is contained in the lower-case
  description, space, brand.
\<close>

theorem C4_attribution:
  "usedSaleItems (enrich toLowerCase ings coupons boostDeals recipe)
     = map item_of (List.map_filter (find_deal toLowerCase ings) (or_nil (usedIngredients recipe)))
   \<and> totalSavings (enrich toLowerCase ings coupons boostDeals recipe)
     = round2 (js_sum (map (\<lambda>u. parseFloat_or_0 (u_savings u))
         (usedSaleItems (enrich toLowerCase ings coupons boostDeals recipe))))
   \<and> couponsToClip (enrich toLowerCase ings coupons boostDeals recipe)
     = map clip_of
         (filter (\<lambda>c. \<exists>name \<in> set (or_nil (usedIngredients recipe)).
                    sublist (first_token (toLowerCase name))
                      (toLowerCase (c_description c @ '' '' @ c_brand c)))
            (or_nil coupons @ or_nil boostDeals))
   \<and> (\<forall>name.
        ((\<exists>d \<in> set ings. sublist (first_token (toLowerCase name)) (toLowerCase (g_name d)))
           \<longrightarrow> find_deal toLowerCase ings name \<noteq> None)
      \<and> ((\<forall>i \<in> set ings. first_token (toLowerCase (g_name i)) \<noteq> ''__proto__'')
           \<and> first_token (toLowerCase name) \<notin> set (''__proto__'' # Object_prototype_functions)
         \<longrightarrow> (find_deal toLowerCase ings name \<noteq> None
                \<longleftrightarrow> (\<exists>d \<in> set ings.
                       sublist (first_token (toLowerCase name)) (toLowerCase (g_name d))))
             \<and> find_deal toLowerCase ings name =
                 map_option Item
                   (case find (\<lambda>i. first_token (toLowerCase (g_name i))
                                    = first_token (toLowerCase name)) (rev ings) of
                      Some d \<Rightarrow> Some d
                    | None \<Rightarrow> find (\<lambda>i. sublist (first_token (toLowerCase name))
                                        (toLowerCase (g_name i))) ings)))"
proof -
  have "coupon_matches toLowerCase used = (\<lambda>c. \<exists>name \<in> set used.
      sublist (first_token (toLowerCase name)) (toLowerCase (c_description c @ '' '' @ c_brand c)))"
    for used
    by (rule ext) (rule coupon_matches_iff)
  then have 3: "couponsToClip (enrich toLowerCase ings coupons boostDeals recipe)
     = map clip_of
         (filter (\<lambda>c. \<exists>name \<in> set (or_nil (usedIngredients recipe)).
                    sublist (first_token (toLowerCase name))
                      (toLowerCase (c_description c @ '' '' @ c_brand c)))
            (or_nil coupons @ or_nil boostDeals))"
    by (simp only: enrich_fields(3))
  have 4: "(\<exists>d \<in> set ings. sublist (first_token (toLowerCase name)) (toLowerCase (g_name d)))
           \<longrightarrow> find_deal toLowerCase ings name \<noteq> None" for name
    using find_deal_found [of ings toLowerCase name] by blast
  have 5: "(\<forall>i \<in> set ings. first_token (toLowerCase (g_name i)) \<noteq> ''__proto__'')
           \<and> first_token (toLowerCase name) \<notin> set (''__proto__'' # Object_prototype_functions)
         \<longrightarrow> (find_deal toLowerCase ings name \<noteq> None
                \<longleftrightarrow> (\<exists>d \<in> set ings.
                       sublist (first_token (toLowerCase name)) (toLowerCase (g_name d))))
             \<and> find_deal toLowerCase ings name =
                 map_option Item
                   (case find (\<lambda>i. first_token (toLowerCase (g_name i))
                                    = first_token (toLowerCase name)) (rev ings) of
                      Some d \<Rightarrow> Some d
                    | None \<Rightarrow> find (\<lambda>i. sublist (first_token (toLowerCase name))
                                        (toLowerCase (g_name i))) ings)" for name
  proof (intro impI, elim conjE)
    assume a: "\<forall>i \<in> set ings. first_token (toLowerCase (g_name i)) \<noteq> ''__proto__''"
      and b: "first_token (toLowerCase name) \<notin> set (''__proto__'' # Object_prototype_functions)"
    from find_deal_plain_iff [OF a b] find_deal_plain [OF a b]
    show "(find_deal toLowerCase ings name \<noteq> None
                \<longleftrightarrow> (\<exists>d \<in> set ings.
                       sublist (first_token (toLowerCase name)) (toLowerCase (g_name d))))
             \<and> find_deal toLowerCase ings name =
                 map_option Item
                   (case find (\<lambda>i. first_token (toLowerCase (g_name i))
                                    = first_token (toLowerCase name)) (rev ings) of
                      Some d \<Rightarrow> Some d
                    | None \<Rightarrow> find (\<lambda>i. sublist (first_token (toLowerCase name))
                                        (toLowerCase (g_name i))) ings)"
      by blast
  qed
  have 1: "usedSaleItems (enrich toLowerCase ings coupons boostDeals recipe)
     = map item_of (List.map_filter (find_deal toLowerCase ings) (or_nil (usedIngredients recipe)))"
    by (rule enrich_fields(1))
  have 2: "totalSavings (enrich toLowerCase ings coupons boostDeals recipe)
     = round2 (js_sum (map (\<lambda>u. parseFloat_or_0 (u_savings u))
         (usedSaleItems (enrich toLowerCase ings coupons boostDeals recipe))))"
    by (simp only: enrich_fields(1,2))
  from 1 2 3 4 5 show ?thesis by blast
qed

lemma chicken_tokens:
  "first_token (ascii_lower ''Chicken Breast'') = ''chicken''"
  "first_token (ascii_lower ''chicken breast'') = ''chicken''"
  "first_token (ascii_lower ''chicken thighs'') = ''chicken''"
  by (simp_all add: ascii_lower_def lower_char_def first_token_def)

lemma odd_tokens:
  "first_token (ascii_lower ''constructor'') = ''constructor''"
  "first_token (ascii_lower ''__proto__ snack'') = ''__proto__''"
  "first_token (ascii_lower ''name'') = ''name''"
  by (simp_all add: ascii_lower_def lower_char_def first_token_def)

lemma chicken_plain:
  "\<forall>i \<in> set [chicken_breast]. first_token (ascii_lower (g_name i)) \<noteq> ''__proto__''"
  "first_token (ascii_lower ''chicken breast'') \<notin> set (''__proto__'' # Object_prototype_functions)"
  "first_token (ascii_lower ''chicken thighs'') \<notin> set (''__proto__'' # Object_prototype_functions)"
  by (simp_all add: chicken_breast_def chicken_tokens Object_prototype_functions_def)

lemma chicken_found:
  "find_deal ascii_lower [chicken_breast] ''chicken breast'' = Some (Item chicken_breast)"
  "find_deal ascii_lower [chicken_breast] ''chicken thighs'' = Some (Item chicken_breast)"
  using find_deal_plain [OF chicken_plain(1) chicken_plain(2)]
    find_deal_plain [OF chicken_plain(1) chicken_plain(3)]
  by (simp_all add: chicken_tokens chicken_breast_def)

lemma constructor_found:
  "find_deal ascii_lower [chicken_breast] ''constructor'' = Some (Builtin ''Object'')"
  by (simp add: find_deal_def Let_def get_property_def ingredientLookup_own
      ingredientLookup_proto odd_tokens)
    (simp add: chicken_breast_def chicken_tokens Object_prototype_functions_def)

lemma name_found:
  "find_deal ascii_lower [odd_snack] ''name'' = Some (Text ''__proto__ snack'')"
  by (simp add: find_deal_def Let_def get_property_def ingredientLookup_own
      ingredientLookup_proto odd_tokens)
    (simp add: odd_snack_def odd_tokens ingredient_property_def)

lemma chicken_dinner_items:
  "usedSaleItems (enrich ascii_lower [chicken_breast] coupons boostDeals chicken_dinner)
     = [item_of (Item chicken_breast), item_of (Item chicken_breast)]"
  by (simp add: enrich_fields(1) chicken_dinner_def List.map_filter_simps chicken_found)

lemma double_2: "double 2 = 2"
  by code_simp

lemma double_4: "double 4 = 4"
  by code_simp

lemma chicken_savings: "parseFloat_or_0 (g_savings chicken_breast) = 2"
  by (simp add: chicken_breast_def double_2)

lemma chicken_dinner_savings:
  "totalSavings (enrich ascii_lower [chicken_breast] coupons boostDeals chicken_dinner) = 4"
proof -
  have "js_sum [2, 2] = 4"
    by (simp add: js_sum_def double_2 double_4)
  moreover have "round2 4 = 4"
    by code_simp
  ultimately show ?thesis
    using chicken_savings
    by (simp add: enrich_fields(2) chicken_dinner_def List.map_filter_simps chicken_found)
qed

lemma odd_dinner_items:
  "usedSaleItems (enrich ascii_lower [chicken_breast] None None odd_dinner)
     = [\<lparr>u_name = Some ''Object'', u_salePrice = None, u_regularPrice = None,
          u_savings = None, u_upc = None\<rparr>]"
  by (simp add: enrich_fields(1) odd_dinner_def List.map_filter_simps constructor_found)

lemma name_dinner_items:
  "usedSaleItems (enrich ascii_lower [odd_snack] None None name_dinner)
     = [\<lparr>u_name = None, u_salePrice = None, u_regularPrice = None,
          u_savings = None, u_upc = None\<rparr>]"
  by (simp add: enrich_fields(1) name_dinner_def List.map_filter_simps name_found)

lemma no_constructor:
  "\<not> sublist (first_token (ascii_lower ''constructor'')) (ascii_lower (g_name chicken_breast))"
  by (simp add: odd_tokens chicken_breast_def)
    (simp add: ascii_lower_def lower_char_def sublist_code)

lemma no_name:
  "\<not> sublist (first_token (ascii_lower ''name'')) (ascii_lower (g_name odd_snack))"
  by (simp add: odd_tokens odd_snack_def)
    (simp add: ascii_lower_def lower_char_def sublist_code)

lemma chicken_coupon_matches:
  "coupon_matches ascii_lower [''chicken breast'', ''chicken thighs''] chicken_coupon"
  by (simp add: coupon_matches_def Let_def chicken_tokens)
    (simp add: chicken_coupon_def ascii_lower_def lower_char_def js_includes_def sublist_code)


lemma chicken_item:
  "item_of (Item chicken_breast)
     = \<lparr>u_name = Some ''Chicken Breast'', u_salePrice = Some 399, u_regularPrice = Some 599,
        u_savings = Some 200, u_upc = Some ''0001111097975''\<rparr>"
  by (simp add: chicken_breast_def)

text \<open>
  One sale item with savings of 2.00 is attributed to two ingredients of a recipe: it is
  listed twice and the total is 4.00. An ingredient called \<open>constructor\<close> is attributed
  the function \<open>Object\<close>, and an item with its name is listed, though no sale item
  contains the token. With a sale item whose name begins with \<open>__proto__\<close>, an ingredient
  called \<open>name\<close> is attributed the name of that item, a string, and an item with no name
  is listed.
\<close>

theorem C4_counterexample:
  "usedSaleItems (enrich ascii_lower [chicken_breast] None None chicken_dinner)
     = [item_of (Item chicken_breast), item_of (Item chicken_breast)]
   \<and> item_of (Item chicken_breast)
     = \<lparr>u_name = Some ''Chicken Breast'', u_salePrice = Some 399, u_regularPrice = Some 599,
        u_savings = Some 200, u_upc = Some ''0001111097975''\<rparr>
   \<and> remdups [item_of (Item chicken_breast), item_of (Item chicken_breast)]
     = [item_of (Item chicken_breast)]
   \<and> parseFloat_or_0 (g_savings chicken_breast) = 2
   \<and> totalSavings (enrich ascii_lower [chicken_breast] None None chicken_dinner) = 4
   \<and> usedSaleItems (enrich ascii_lower [chicken_breast] None None odd_dinner)
     = [\<lparr>u_name = Some ''Object'', u_salePrice = None, u_regularPrice = None,
          u_savings = None, u_upc = None\<rparr>]
   \<and> \<not> sublist (first_token (ascii_lower ''constructor'')) (ascii_lower (g_name chicken_breast))
   \<and> usedSaleItems (enrich ascii_lower [odd_snack] None None name_dinner)
     = [\<lparr>u_name = None, u_salePrice = None, u_regularPrice = None,
          u_savings = None, u_upc = None\<rparr>]
   \<and> \<not> sublist (first_token (ascii_lower ''name'')) (ascii_lower (g_name odd_snack))"
proof -
  have "remdups [item_of (Item chicken_breast), item_of (Item chicken_breast)]
     = [item_of (Item chicken_breast)]"
    by simp
  with chicken_dinner_items [of None None] chicken_item chicken_savings
    chicken_dinner_savings [of None None] odd_dinner_items no_constructor name_dinner_items
    no_name
  show ?thesis by (intro conjI)
qed

theorem C4_attribution_witness:
  "usedSaleItems (enrich ascii_lower [chicken_breast] (Some [chicken_coupon]) None chicken_dinner)
     = map item_of (List.map_filter (find_deal ascii_lower [chicken_breast])
         (or_nil (usedIngredients chicken_dinner)))
   \<and> usedSaleItems (enrich ascii_lower [chicken_breast] (Some [chicken_coupon]) None chicken_dinner)
     = [item_of (Item chicken_breast), item_of (Item chicken_breast)]
   \<and> totalSavings (enrich ascii_lower [chicken_breast] (Some [chicken_coupon]) None chicken_dinner)
     = round2 (js_sum (map (\<lambda>u. parseFloat_or_0 (u_savings u))
         (usedSaleItems (enrich ascii_lower [chicken_breast] (Some [chicken_coupon]) None
            chicken_dinner))))
   \<and> totalSavings (enrich ascii_lower [chicken_breast] (Some [chicken_coupon]) None chicken_dinner)
     = 4
   \<and> couponsToClip (enrich ascii_lower [chicken_breast] (Some [chicken_coupon]) None chicken_dinner)
     = [clip_of chicken_coupon]
   \<and> first_token (ascii_lower (g_name chicken_breast)) \<noteq> ''__proto__''
   \<and> first_token (ascii_lower ''chicken thighs'')
       \<notin> set (''__proto__'' # Object_prototype_functions)
   \<and> sublist (first_token (ascii_lower ''chicken thighs'')) (ascii_lower (g_name chicken_breast))
   \<and> find_deal ascii_lower [chicken_breast] ''chicken thighs'' \<noteq> None
   \<and> find_deal ascii_lower [chicken_breast] ''chicken thighs''
       = map_option Item
           (case find (\<lambda>i. first_token (ascii_lower (g_name i))
                            = first_token (ascii_lower ''chicken thighs'')) (rev [chicken_breast]) of
              Some d \<Rightarrow> Some d
            | None \<Rightarrow> find (\<lambda>i. sublist (first_token (ascii_lower ''chicken thighs''))
                                (ascii_lower (g_name i))) [chicken_breast])
   \<and> find_deal ascii_lower [chicken_breast] ''chicken thighs'' = Some (Item chicken_breast)"
proof -
  note c4 = C4_attribution [where toLowerCase = ascii_lower and ings = "[chicken_breast]"
      and coupons = "Some [chicken_coupon]" and boostDeals = None and recipe = chicken_dinner]
  have a: "\<forall>i \<in> set [chicken_breast]. first_token (ascii_lower (g_name i)) \<noteq> ''__proto__''"
    by (rule chicken_plain(1))
  have b: "first_token (ascii_lower ''chicken thighs'')
      \<notin> set (''__proto__'' # Object_prototype_functions)"
    by (rule chicken_plain(3))
  from c4 a b have plain:
    "(find_deal ascii_lower [chicken_breast] ''chicken thighs'' \<noteq> None
        \<longleftrightarrow> (\<exists>d \<in> set [chicken_breast].
               sublist (first_token (ascii_lower ''chicken thighs'')) (ascii_lower (g_name d))))
     \<and> find_deal ascii_lower [chicken_breast] ''chicken thighs''
       = map_option Item
           (case find (\<lambda>i. first_token (ascii_lower (g_name i))
                            = first_token (ascii_lower ''chicken thighs'')) (rev [chicken_breast]) of
              Some d \<Rightarrow> Some d
            | None \<Rightarrow> find (\<lambda>i. sublist (first_token (ascii_lower ''chicken thighs''))
                                (ascii_lower (g_name i))) [chicken_breast])"
    by blast
  have s: "sublist (first_token (ascii_lower ''chicken thighs'')) (ascii_lower (g_name chicken_breast))"
    using first_token_sublist [of "ascii_lower ''Chicken Breast''"]
    by (simp add: chicken_tokens chicken_breast_def)
  with plain have some: "find_deal ascii_lower [chicken_breast] ''chicken thighs'' \<noteq> None"
    by simp
  have c: "couponsToClip (enrich ascii_lower [chicken_breast] (Some [chicken_coupon]) None
      chicken_dinner) = [clip_of chicken_coupon]"
    using chicken_coupon_matches by (simp add: enrich_fields(3) chicken_dinner_def)
  from a have a1: "first_token (ascii_lower (g_name chicken_breast)) \<noteq> ''__proto__''"
    by simp
  from c4 have 1: "usedSaleItems (enrich ascii_lower [chicken_breast] (Some [chicken_coupon]) None
      chicken_dinner)
     = map item_of (List.map_filter (find_deal ascii_lower [chicken_breast])
         (or_nil (usedIngredients chicken_dinner)))"
    and 2: "totalSavings (enrich ascii_lower [chicken_breast] (Some [chicken_coupon]) None
      chicken_dinner)
     = round2 (js_sum (map (\<lambda>u. parseFloat_or_0 (u_savings u))
         (usedSaleItems (enrich ascii_lower [chicken_breast] (Some [chicken_coupon]) None
            chicken_dinner))))"
    by (rule conjunct1, rule conjunct2 [THEN conjunct1])
  from 1 chicken_dinner_items 2 chicken_dinner_savings c a1 b s some plain chicken_found(2)
  show ?thesis by (intro conjI) (erule conjunct2 | assumption)+
qed

section \<open>Refreshing the user's token\<close>

text \<open>
  C9. For a user with a stored credential, a request of the coupons route whose clock
  reading is at or after \<open>expiresAt\<close> sends exactly one refresh request, with the stored
  refresh token, before anything else. When the token endpoint grants it, the stored
  credential gets the new access token and the new expiry (the other fields stay), and
  the two loyalty requests follow with the new access token; when it does not, the route
  answers 500 and the stored credential stays as it was. A request whose clock reading is
  before \<open>expiresAt\<close> sends no refresh request, leaves the map as it was, and sends the
  loyalty requests with the stored access token.
\<close>

theorem C9_refresh_when_expired:
  assumes "getUser w = Some user" and "krogerTokens user = Some krogerData"
  shows "(expiresAt krogerData \<le> now_checked w \<longrightarrow>
           (\<exists>answer tokens' rest.
              api_coupons w krogerTokens = (answer, tokens', Refresh (refreshToken krogerData) # rest)
            \<and> length (filter is_refresh (Refresh (refreshToken krogerData) # rest)) = 1
            \<and> (case refreshKrogerToken w (refreshToken krogerData) of
                  Inl message \<Rightarrow> answer = Error 500 message \<and> tokens' = krogerTokens \<and> rest = []
                | Inr refreshed \<Rightarrow>
                    tokens' = krogerTokens(user \<mapsto> krogerData
                       \<lparr>accessToken := access_token refreshed,
                        expiresAt := now_refreshed w + expires_in refreshed * 1000\<rparr>)
                  \<and> rest = [Get_coupons (access_token refreshed), Get_boost (access_token refreshed)])))
     \<and> (now_checked w < expiresAt krogerData \<longrightarrow>
           (\<exists>answer. api_coupons w krogerTokens
              = (answer, krogerTokens,
                 [Get_coupons (accessToken krogerData), Get_boost (accessToken krogerData)])))"
  using assms
  by (cases "refreshKrogerToken w (refreshToken krogerData)")
    (simp_all add: api_coupons_def Let_def)

theorem C9_refresh_when_expired_witness:
  "getUser coupon_world = Some ''user-1'' \<and> [''user-1'' \<mapsto> stale] ''user-1'' = Some stale
   \<and> expiresAt stale \<le> now_checked coupon_world
   \<and> (\<exists>answer tokens' rest.
         api_coupons coupon_world [''user-1'' \<mapsto> stale]
           = (answer, tokens', Refresh (refreshToken stale) # rest)
       \<and> length (filter is_refresh (Refresh (refreshToken stale) # rest)) = 1
       \<and> tokens' = [''user-1'' \<mapsto> stale\<lparr>accessToken := ''new-access'', expiresAt := 1700001860250\<rparr>]
       \<and> rest = [Get_coupons ''new-access'', Get_boost ''new-access''])
   \<and> now_checked early_world < expiresAt stale
   \<and> (\<exists>answer. api_coupons early_world [''user-1'' \<mapsto> stale]
         = (answer, [''user-1'' \<mapsto> stale], [Get_coupons ''old-access'', Get_boost ''old-access'']))"
proof -
  have 1: "getUser coupon_world = Some ''user-1''"
    by (simp add: coupon_world_def)
  have e1: "getUser early_world = Some ''user-1''"
    by (simp add: coupon_world_def early_world_def)
  have 2: "[''user-1'' \<mapsto> stale] ''user-1'' = Some stale"
    by simp
  have 3: "expiresAt stale \<le> now_checked coupon_world"
    by (simp add: coupon_world_def stale_def)
  have e3: "now_checked early_world < expiresAt stale"
    by (simp add: coupon_world_def early_world_def stale_def)
  have 4: "refreshKrogerToken coupon_world (refreshToken stale)
      = Inr \<lparr>access_token = ''new-access'', expires_in = 1800\<rparr>"
    by (simp add: refreshKrogerToken_def coupon_world_def stale_def)
  have 5: "now_refreshed coupon_world = 1700000060250"
    by (simp add: coupon_world_def)
  have 6: "accessToken stale = ''old-access''"
    by (simp add: stale_def)
  from C9_refresh_when_expired [of coupon_world "''user-1''" "[''user-1'' \<mapsto> stale]" stale, OF 1 2] 3
  have a: "\<exists>answer tokens' rest.
         api_coupons coupon_world [''user-1'' \<mapsto> stale]
           = (answer, tokens', Refresh (refreshToken stale) # rest)
       \<and> length (filter is_refresh (Refresh (refreshToken stale) # rest)) = 1
       \<and> tokens' = [''user-1'' \<mapsto> stale\<lparr>accessToken := ''new-access'', expiresAt := 1700001860250\<rparr>]
       \<and> rest = [Get_coupons ''new-access'', Get_boost ''new-access'']"
    by (simp add: 4 5)
  from C9_refresh_when_expired [of early_world "''user-1''" "[''user-1'' \<mapsto> stale]" stale, OF e1 2] e3
  have b: "\<exists>answer. api_coupons early_world [''user-1'' \<mapsto> stale]
         = (answer, [''user-1'' \<mapsto> stale], [Get_coupons ''old-access'', Get_boost ''old-access''])"
    by (simp add: 6)
  show ?thesis
    by (intro conjI) (rule 1, rule 2, rule 3, rule a, rule e3, rule b)
qed


section \<open>The fields that a profile update writes\<close>

lemma foldl_allowed:
  "foldl (\<lambda>updates key. case body key of None \<Rightarrow> updates | Some v \<Rightarrow> updates(key \<mapsto> v)) m ks k
     = (if k \<in> set ks then (case body k of None \<Rightarrow> m k | Some v \<Rightarrow> Some v) else m k)"
proof (induction ks arbitrary: m)
  case Nil
  show ?case by simp
next
  case (Cons key ks)
  show ?case
    by (cases "body key") (auto simp: Cons.IH split: option.splits)
qed

lemma updates_of_eq:
  "updates_of body now k
     = (if k = ''updated_at'' then Some now else if k \<in> set allowed then body k else None)"
  by (simp add: updates_of_def foldl_allowed split: option.splits)

lemma updates_of_cong:
  assumes "\<forall>k \<in> set allowed. body' k = body k"
  shows "updates_of body' now = updates_of body now"
  using assms by (intro ext) (simp add: updates_of_eq)

text \<open>
  C10. The object \<open>updates\<close> that is sent to the store has the server's \<open>updated_at\<close>,
  the fields of the body that are in the list of allowed fields, and nothing else. So
  after the request every row of the table has its old value in every column that is not
  in the list and is not \<open>updated_at\<close>, whatever the body holds, and two bodies that agree
  on the allowed fields get the same answer and leave the same table.
\<close>

theorem C10_only_allowed_fields:
  "(\<forall>k. updates_of body now k
     = (if k = ''updated_at'' then Some now else if k \<in> set allowed then body k else None))
   \<and> (\<forall>u row. profiles u = Some row \<longrightarrow>
         (\<exists>row'. snd (api_profile_patch refuses user now profiles body) u = Some row'
            \<and> (\<forall>k. k \<notin> set allowed \<longrightarrow> k \<noteq> ''updated_at'' \<longrightarrow> row' k = row k)))
   \<and> (\<forall>u. profiles u = None \<longrightarrow> snd (api_profile_patch refuses user now profiles body) u = None)
   \<and> (\<forall>body'. (\<forall>k \<in> set allowed. body' k = body k) \<longrightarrow>
         api_profile_patch refuses user now profiles body'
           = api_profile_patch refuses user now profiles body)"
proof -
  have 1: "updates_of body now k
     = (if k = ''updated_at'' then Some now else if k \<in> set allowed then body k else None)" for k
    by (rule updates_of_eq)
  have 2: "\<exists>row'. snd (api_profile_patch refuses user now profiles body) u = Some row'
            \<and> (\<forall>k. k \<notin> set allowed \<longrightarrow> k \<noteq> ''updated_at'' \<longrightarrow> row' k = row k)"
    if "profiles u = Some row" for u row
    using that
    by (auto simp: api_profile_patch_def profiles_update_def updates_of_eq map_add_def
        split: option.splits)
  have 3: "snd (api_profile_patch refuses user now profiles body) u = None"
    if "profiles u = None" for u
    using that
    by (auto simp: api_profile_patch_def profiles_update_def split: option.splits)
  have 4: "api_profile_patch refuses user now profiles body'
           = api_profile_patch refuses user now profiles body"
    if "\<forall>k \<in> set allowed. body' k = body k" for body'
    unfolding api_profile_patch_def updates_of_cong [OF that] ..
  from 1 2 3 4 show ?thesis by blast
qed

theorem C10_only_allowed_fields_witness:
  "updates_of body_1 ''2026-01-01T00:00:00.000Z'' ''kroger_connected'' = None
   \<and> updates_of body_1 ''2026-01-01T00:00:00.000Z'' ''full_name'' = Some ''Ann B''
   \<and> [''user-1'' \<mapsto> row_1] ''user-1'' = Some row_1
   \<and> (\<exists>row'. snd (api_profile_patch (\<lambda>u. None) (Some ''user-1'') ''2026-01-01T00:00:00.000Z''
                      [''user-1'' \<mapsto> row_1] body_1) ''user-1'' = Some row'
            \<and> row' ''kroger_connected'' = row_1 ''kroger_connected'' \<and> row' ''id'' = row_1 ''id'')
   \<and> snd (api_profile_patch (\<lambda>u. None) (Some ''user-1'') ''2026-01-01T00:00:00.000Z''
            [''user-1'' \<mapsto> row_1] body_1) ''user-1''
       = Some (row_1(''full_name'' \<mapsto> ''Ann B'', ''updated_at'' \<mapsto> ''2026-01-01T00:00:00.000Z''))"
proof -
  let ?now = "''2026-01-01T00:00:00.000Z''"
  note inst = C10_only_allowed_fields [of body_1 ?now "[''user-1'' \<mapsto> row_1]" "\<lambda>u. None" "Some ''user-1''"]
  have r: "[''user-1'' \<mapsto> row_1] ''user-1'' = Some row_1"
    by simp
  have k: "''kroger_connected'' \<notin> set allowed" "''kroger_connected'' \<noteq> ''updated_at''"
    "''id'' \<notin> set allowed" "''id'' \<noteq> ''updated_at''" "''full_name'' \<in> set allowed"
    "''full_name'' \<noteq> ''updated_at''"
    by (simp_all add: allowed_def)
  from inst have u: "updates_of body_1 ?now k
     = (if k = ''updated_at'' then Some ?now else if k \<in> set allowed then body_1 k else None)" for k
    by blast
  have a1: "updates_of body_1 ?now ''kroger_connected'' = None"
    by (simp only: u k if_False)
  have a2: "updates_of body_1 ?now ''full_name'' = Some ''Ann B''"
    by (simp only: u k if_False if_True) (simp add: body_1_def)
  from inst r have "\<exists>row'. snd (api_profile_patch (\<lambda>u. None) (Some ''user-1'') ?now
                      [''user-1'' \<mapsto> row_1] body_1) ''user-1'' = Some row'
            \<and> (\<forall>k. k \<notin> set allowed \<longrightarrow> k \<noteq> ''updated_at'' \<longrightarrow> row' k = row_1 k)"
    by blast
  with k have b: "\<exists>row'. snd (api_profile_patch (\<lambda>u. None) (Some ''user-1'') ?now
                      [''user-1'' \<mapsto> row_1] body_1) ''user-1'' = Some row'
            \<and> row' ''kroger_connected'' = row_1 ''kroger_connected'' \<and> row' ''id'' = row_1 ''id''"
    by blast
  have "row_1 ++ updates_of body_1 ?now = row_1(''full_name'' \<mapsto> ''Ann B'', ''updated_at'' \<mapsto> ?now)"
  proof (rule ext)
    fix k
    show "(row_1 ++ updates_of body_1 ?now) k
        = (row_1(''full_name'' \<mapsto> ''Ann B'', ''updated_at'' \<mapsto> ?now)) k"
      by (simp only: map_add_def u) (auto simp: allowed_def body_1_def)
  qed
  then have c: "snd (api_profile_patch (\<lambda>u. None) (Some ''user-1'') ?now
            [''user-1'' \<mapsto> row_1] body_1) ''user-1''
       = Some (row_1(''full_name'' \<mapsto> ''Ann B'', ''updated_at'' \<mapsto> ?now))"
    by (simp add: api_profile_patch_def profiles_update_def)
  show ?thesis
    by (intro conjI) (rule a1, rule a2, rule r, rule b, rule c)
qed

end
